theory Spec2Isabelle
  imports Complex_Main "HOL-Library.AList"
begin

section \<open>Values, enumerations and records of the workflow engine\<close>

text \<open>
  Python values stored in the dynamic dictionaries (payloads, results, metadata).
  A dictionary is an association list in insertion order; \<open>AList.update\<close> replaces the
  value of a present key in place and appends an absent key, as a Python \<open>dict\<close> does.
\<close>

datatype pyval =
    PNone
  | PBool bool
  | PInt int
  | PFloat real
  | PStr string
  | PList "pyval list"
  | PDict "(string \<times> pyval) list"

type_synonym pydict = "(string \<times> pyval) list"

text \<open>\<open>d.get(k)\<close>: the value under \<open>k\<close>, \<open>None\<close> when the key is absent.\<close>

definition dict_get :: "pydict \<Rightarrow> string \<Rightarrow> pyval" where
  "dict_get d k = (case map_of d k of None \<Rightarrow> PNone | Some v \<Rightarrow> v)"

text \<open>Python truthiness of a value, as \<open>if x:\<close> tests it.\<close>

fun truthy :: "pyval \<Rightarrow> bool" where
  "truthy PNone = False"
| "truthy (PBool b) = b"
| "truthy (PInt i) = (i \<noteq> 0)"
| "truthy (PFloat x) = (x \<noteq> 0)"
| "truthy (PStr s) = (s \<noteq> [])"
| "truthy (PList xs) = (xs \<noteq> [])"
| "truthy (PDict d) = (d \<noteq> [])"

text \<open>Wall-clock readings (\<open>datetime.now()\<close>, \<open>time.time()\<close>) are parameters of the operations.\<close>

type_synonym timestamp = real

datatype WorkflowStatus = WF_PENDING | WF_RUNNING | WF_COMPLETED | WF_FAILED | WF_CANCELLED

datatype WorkflowPhase =
  INITIALIZATION | AGENT_SELECTION | TASK_EXECUTION | RESULT_PROCESSING | COMPLETION

datatype TaskPriority = LOW | NORMAL | HIGH | CRITICAL

datatype TaskStatus =
  TASK_PENDING | TASK_ASSIGNED | TASK_RUNNING | TASK_COMPLETED | TASK_FAILED | TASK_CANCELLED

record Workflow =
  wf_id :: string
  workflow_type :: string
  payload :: pydict
  priority :: TaskPriority
  status :: WorkflowStatus
  current_phase :: WorkflowPhase
  created_at :: timestamp
  started_at :: "timestamp option"
  completed_at :: "timestamp option"
  assigned_agents :: "string list"
  tasks :: "string list"
  results :: pydict
  error :: "string option"
  timeout_seconds :: int
  metadata :: pydict

text \<open>\<open>Workflow.__init__\<close>; the fresh uuid and the creation time come from the caller.\<close>

definition new_Workflow :: "string \<Rightarrow> timestamp \<Rightarrow> string \<Rightarrow> pydict \<Rightarrow> TaskPriority \<Rightarrow> Workflow" where
  "new_Workflow uuid now wtype pl prio =
     \<lparr> wf_id = uuid, workflow_type = wtype, payload = pl, priority = prio,
       status = WF_PENDING, current_phase = INITIALIZATION, created_at = now,
       started_at = None, completed_at = None, assigned_agents = [], tasks = [],
       results = [], error = None, timeout_seconds = 1800, metadata = [] \<rparr>"

text \<open>
  Modelled from the spec: the \<open>Task\<close> class of the task-queue module, which is not among
  the sources. The spec gives a task an id, a type, an opaque payload, a priority, a
  status, an optional assigned agent, a result and an error; \<open>enqueue\<close> assigns the id.
\<close>

record Task =
  task_id :: string
  task_type :: string
  task_payload :: pydict
  task_priority :: TaskPriority
  task_status :: TaskStatus
  task_assigned_agent :: "string option"
  task_result :: pyval
  task_error :: "string option"

text \<open>
  Modelled from the spec: the constructor \<open>Task(type, payload, priority)\<close> of the missing
  task-queue module; a new task has no id yet, no agent, no result and no error.
\<close>

definition new_Task :: "string \<Rightarrow> pydict \<Rightarrow> TaskPriority \<Rightarrow> Task" where
  "new_Task ttype pl prio =
     \<lparr> task_id = [], task_type = ttype, task_payload = pl, task_priority = prio,
       task_status = TASK_PENDING, task_assigned_agent = None, task_result = PNone,
       task_error = None \<rparr>"

section \<open>Task templates\<close>

text \<open>\<open>WorkflowEngine._create_workflow_tasks\<close>: an \<open>if/elif/else\<close> on the workflow type.\<close>

definition create_workflow_tasks :: "Workflow \<Rightarrow> Task list" where
  "create_workflow_tasks w =
     (if workflow_type w = ''site_recreation'' then
        [ new_Task ''analyze_site'' [(''url'', dict_get (payload w) ''url'')] (priority w),
          new_Task ''design_interface''
            [(''requirements'', dict_get (payload w) ''requirements'')] (priority w),
          new_Task ''generate_code'' [(''design'', PStr ''from_previous_task'')] (priority w),
          new_Task ''test_quality'' [(''code'', PStr ''from_previous_task'')] (priority w) ]
      else if workflow_type w = ''business_analysis'' then
        [ new_Task ''analyze_portfolio''
            [(''businesses'', dict_get (payload w) ''businesses'')] (priority w),
          new_Task ''financial_analysis'' [(''data'', PStr ''from_previous_task'')] (priority w),
          new_Task ''generate_report'' [(''analysis'', PStr ''from_previous_task'')] (priority w) ]
      else
        [ new_Task ''execute_workflow'' (payload w) (priority w) ])"

section \<open>Workflow statistics\<close>

text \<open>
  \<open>WorkflowEngine.get_workflow_stats\<close> reads only the workflow table, a dictionary from
  workflow id to workflow: \<open>len\<close> of the table and, per status, \<open>len\<close> of a list
  comprehension over its values.
\<close>

type_synonym workflow_table = "(string \<times> Workflow) list"

definition count_status :: "workflow_table \<Rightarrow> WorkflowStatus \<Rightarrow> nat" where
  "count_status tbl s = length [w \<leftarrow> map snd tbl. status w = s]"

definition get_workflow_stats :: "workflow_table \<Rightarrow> (string \<times> nat) list" where
  "get_workflow_stats tbl =
     [ (''total_workflows'', length tbl),
       (''pending_workflows'', count_status tbl WF_PENDING),
       (''running_workflows'', count_status tbl WF_RUNNING),
       (''completed_workflows'', count_status tbl WF_COMPLETED),
       (''failed_workflows'', count_status tbl WF_FAILED),
       (''cancelled_workflows'', count_status tbl WF_CANCELLED) ]"

text \<open>Reading one entry of the returned dictionary (\<open>stats[key]\<close>).\<close>

definition stat :: "(string \<times> nat) list \<Rightarrow> string \<Rightarrow> nat option" where
  "stat d k = map_of d k"

section \<open>Reliability primitives\<close>

text \<open>Exceptions that the modelled code raises or passes on.\<close>

datatype py_exception =
    TypeError
  | CircuitBreakerOpenError string
  | CallFailed string
  | RuntimeError string

subsection \<open>Circuit breaker\<close>

datatype BreakerState = CLOSED | OPEN | HALF_OPEN

record CircuitBreaker =
  failure_threshold :: int
  recovery_timeout :: int
  failure_count :: int
  last_failure_time :: "timestamp option"
  state :: BreakerState

text \<open>\<open>CircuitBreaker.__init__\<close>.\<close>

definition new_CircuitBreaker :: "int \<Rightarrow> int \<Rightarrow> CircuitBreaker" where
  "new_CircuitBreaker threshold timeout =
     \<lparr> failure_threshold = threshold, recovery_timeout = timeout, failure_count = 0,
       last_failure_time = None, state = CLOSED \<rparr>"

text \<open>
  \<open>CircuitBreaker.can_execute\<close>, with the reading of \<open>time.time()\<close> as \<open>now\<close>. In OPEN
  the subtraction \<open>time.time() - self.last_failure_time\<close> raises \<open>TypeError\<close> when no
  failure time was ever stored.
\<close>

definition can_execute :: "timestamp \<Rightarrow> CircuitBreaker \<Rightarrow> py_exception + (bool \<times> CircuitBreaker)" where
  "can_execute now cb =
     (case state cb of
        CLOSED \<Rightarrow> Inr (True, cb)
      | OPEN \<Rightarrow>
          (case last_failure_time cb of
             None \<Rightarrow> Inl TypeError
           | Some t \<Rightarrow>
               if now - t \<ge> of_int (recovery_timeout cb)
               then Inr (True, cb\<lparr>state := HALF_OPEN\<rparr>)
               else Inr (False, cb))
      | HALF_OPEN \<Rightarrow> Inr (True, cb))"

text \<open>\<open>CircuitBreaker.record_success\<close>.\<close>

definition record_success :: "CircuitBreaker \<Rightarrow> CircuitBreaker" where
  "record_success cb = cb\<lparr>failure_count := 0, state := CLOSED\<rparr>"

text \<open>\<open>CircuitBreaker.record_failure\<close>, with the reading of \<open>time.time()\<close> as \<open>now\<close>.\<close>

definition record_failure :: "timestamp \<Rightarrow> CircuitBreaker \<Rightarrow> CircuitBreaker" where
  "record_failure now cb =
     (let cb1 = cb\<lparr>failure_count := failure_count cb + 1, last_failure_time := Some now\<rparr>
      in if failure_count cb1 \<ge> failure_threshold cb1 then cb1\<lparr>state := OPEN\<rparr> else cb1)"

text \<open>
  A history of calls on one breaker. A \<open>can_execute\<close> that raises leaves the breaker as it
  was.
\<close>

datatype breaker_call = CanExecute timestamp | RecordSuccess | RecordFailure timestamp

fun do_call :: "breaker_call \<Rightarrow> CircuitBreaker \<Rightarrow> CircuitBreaker" where
  "do_call (CanExecute now) cb =
     (case can_execute now cb of Inl _ \<Rightarrow> cb | Inr (_, cb') \<Rightarrow> cb')"
| "do_call RecordSuccess cb = record_success cb"
| "do_call (RecordFailure now) cb = record_failure now cb"

text \<open>The breaker after the calls \<open>cs\<close>, in order, on a freshly constructed breaker.\<close>

definition breaker_after :: "int \<Rightarrow> int \<Rightarrow> breaker_call list \<Rightarrow> CircuitBreaker" where
  "breaker_after threshold timeout cs = fold do_call cs (new_CircuitBreaker threshold timeout)"

text \<open>The calls that record a failure.\<close>

fun is_failure :: "breaker_call \<Rightarrow> bool" where
  "is_failure (RecordFailure now) = True"
| "is_failure c = False"

text \<open>
  What every breaker built by the constructor and driven through its three methods
  satisfies: the parameters never change, the count is not negative, and outside CLOSED
  the count has reached the threshold and a failure time is stored.
\<close>

definition breaker_inv :: "int \<Rightarrow> int \<Rightarrow> CircuitBreaker \<Rightarrow> bool" where
  "breaker_inv threshold timeout cb \<longleftrightarrow>
     failure_threshold cb = threshold \<and> recovery_timeout cb = timeout \<and>
     0 \<le> failure_count cb \<and>
     (state cb \<noteq> CLOSED \<longrightarrow> threshold \<le> failure_count cb \<and> last_failure_time cb \<noteq> None)"

subsection \<open>The integrator's reliability state\<close>

text \<open>
  The counters of \<open>PerformanceMonitor.metrics\<close> that \<open>record_request\<close> touches.
  \<open>request_count\<close> starts at 0 and is only ever incremented, so it is a natural number,
  and the division in \<open>record_request\<close> is by a positive number.
\<close>

record PerformanceMetrics =
  request_count :: nat
  error_count :: nat
  avg_response_time :: real

definition record_request :: "real \<Rightarrow> bool \<Rightarrow> PerformanceMetrics \<Rightarrow> PerformanceMetrics" where
  "record_request response_time success m =
     (let m1 = m\<lparr>request_count := request_count m + 1\<rparr>;
          m2 = (if \<not> success then m1\<lparr>error_count := error_count m1 + 1\<rparr> else m1);
          current_avg = avg_response_time m2;
          total_requests = real (request_count m2)
      in m2\<lparr>avg_response_time :=
              (current_avg * (total_requests - 1) + response_time) / total_requests\<rparr>)"

text \<open>
  What the wrapped call and \<open>asyncio.sleep\<close> do to the outside, in order: the wrapped
  call entered for the attempt with the given index, and a sleep of the given length.
\<close>

datatype retry_event = Call nat | Sleep real

text \<open>
  The part of \<open>IZAOSWorkflowIntegrator\<close> that the retry wrapper and the rate limiter use:
  the breaker, the metrics, the rate-limiter dictionary, and the three configuration
  values \<open>security_config.api_rate_limit\<close>, \<open>performance_config.retry_attempts\<close> and
  \<open>performance_config.retry_delay\<close>. \<open>clock\<close> is the reading of \<open>time.time()\<close> and
  \<open>effects\<close> the log of calls and sleeps; floats are modelled as reals.
\<close>

record Integrator =
  circuit_breaker :: CircuitBreaker
  performance_monitor :: PerformanceMetrics
  rate_limiter :: "string \<rightharpoonup> timestamp list"
  api_rate_limit :: int
  retry_attempts :: int
  retry_delay :: real
  clock :: timestamp
  effects :: "retry_event list"

subsection \<open>Retry wrapper\<close>

text \<open>
  The wrapped coroutine, as seen by the wrapper: entered for the attempt with index \<open>i\<close>
  it takes some time and either raises an \<open>Exception\<close> (with a message) or returns a
  value.
\<close>

type_synonym 'a wrapped = "nat \<Rightarrow> real \<times> (string + 'a)"

text \<open>\<open>await asyncio.sleep(d)\<close>: logged with its argument; the clock advances.\<close>

definition sleep :: "real \<Rightarrow> Integrator \<Rightarrow> Integrator" where
  "sleep d s = s\<lparr>clock := clock s + max 0 d, effects := effects s @ [Sleep d]\<rparr>"

text \<open>
  The \<open>for attempt in range(retry_attempts)\<close> loop of \<open>_execute_with_retry\<close>, over the
  attempts still to make. The result is the raised exception, or the returned value;
  \<open>None\<close> is Python's implicit return when the loop ends without \<open>return\<close> or \<open>raise\<close>.
\<close>

fun retry_loop :: "'a wrapped \<Rightarrow> nat list \<Rightarrow> Integrator \<Rightarrow> (py_exception + 'a option) \<times> Integrator" where
  "retry_loop func [] s = (Inr None, s)"
| "retry_loop func (attempt # rest) s =
     (let start_time = clock s;
          (duration, outcome) = func attempt;
          s1 = s\<lparr>clock := clock s + duration, effects := effects s @ [Call attempt]\<rparr>;
          response_time = clock s1 - start_time
      in case outcome of
           Inr result \<Rightarrow>
             (Inr (Some result),
              s1\<lparr>performance_monitor := record_request response_time True (performance_monitor s1),
                 circuit_breaker := record_success (circuit_breaker s1)\<rparr>)
         | Inl e \<Rightarrow>
             (let s2 = s1\<lparr>performance_monitor :=
                            record_request response_time False (performance_monitor s1),
                          circuit_breaker := record_failure (clock s1) (circuit_breaker s1)\<rparr>
              in if int attempt = retry_attempts s2 - 1 then (Inl (CallFailed e), s2)
                 else retry_loop func rest (sleep (retry_delay s2 * 2 ^ attempt) s2)))"

text \<open>\<open>IZAOSWorkflowIntegrator._execute_with_retry\<close>; \<open>range(n)\<close> is empty for \<open>n \<le> 0\<close>.\<close>

definition execute_with_retry :: "'a wrapped \<Rightarrow> Integrator \<Rightarrow> (py_exception + 'a option) \<times> Integrator" where
  "execute_with_retry func s =
     (case can_execute (clock s) (circuit_breaker s) of
        Inl e \<Rightarrow> (Inl e, s)
      | Inr (ok, cb) \<Rightarrow>
          if \<not> ok then (Inl (CircuitBreakerOpenError ''Circuit breaker is open''),
                         s\<lparr>circuit_breaker := cb\<rparr>)
          else retry_loop func [0 ..< nat (retry_attempts s)] (s\<lparr>circuit_breaker := cb\<rparr>))"

text \<open>The calls and sleeps a run added to the log, and what they add up to.\<close>

definition new_effects :: "Integrator \<Rightarrow> Integrator \<Rightarrow> retry_event list" where
  "new_effects s s' = drop (length (effects s)) (effects s')"

fun tries :: "retry_event list \<Rightarrow> nat" where
  "tries [] = 0"
| "tries (Call i # es) = Suc (tries es)"
| "tries (Sleep d # es) = tries es"

fun total_sleep :: "retry_event list \<Rightarrow> real" where
  "total_sleep [] = 0"
| "total_sleep (Call i # es) = total_sleep es"
| "total_sleep (Sleep d # es) = d + total_sleep es"

text \<open>
  The log of a run whose last attempt has index \<open>k\<close>: attempts \<open>0\<close> to \<open>k\<close> in order,
  and between attempt \<open>i\<close> and attempt \<open>i + 1\<close> one sleep of \<open>delay * 2 ^ i\<close>.
\<close>

fun backoff_log :: "real \<Rightarrow> nat \<Rightarrow> retry_event list" where
  "backoff_log delay 0 = [Call 0]"
| "backoff_log delay (Suc k) = backoff_log delay k @ [Sleep (delay * 2 ^ k), Call (Suc k)]"

subsection \<open>Rate limiter\<close>

text \<open>
  \<open>self.rate_limiter[key]\<close> after \<open>if key not in self.rate_limiter: self.rate_limiter[key] = []\<close>.
\<close>

definition bucket :: "(string \<rightharpoonup> timestamp list) \<Rightarrow> string \<Rightarrow> timestamp list" where
  "bucket rl key = (case rl key of None \<Rightarrow> [] | Some ts \<Rightarrow> ts)"

text \<open>The key \<open>f"{operation}:{identifier}"\<close>.\<close>

definition rate_key :: "string \<Rightarrow> string \<Rightarrow> string" where
  "rate_key operation identifier = operation @ '':'' @ identifier"

text \<open>
  \<open>IZAOSWorkflowIntegrator._check_rate_limit\<close>, with the reading of \<open>time.time()\<close> as
  \<open>now\<close>: prune the key's list to the window, reject when it is full, otherwise append
  \<open>now\<close>.
\<close>

definition check_rate_limit :: "timestamp \<Rightarrow> string \<Rightarrow> string \<Rightarrow> Integrator \<Rightarrow> bool \<times> Integrator" where
  "check_rate_limit now operation identifier s =
     (let key = rate_key operation identifier;
          kept = [t \<leftarrow> bucket (rate_limiter s) key. now - t < of_int (api_rate_limit s)];
          s1 = s\<lparr>rate_limiter := (rate_limiter s)(key \<mapsto> kept)\<rparr>
      in if int (length kept) \<ge> api_rate_limit s1 then (False, s1)
         else (True, s1\<lparr>rate_limiter := (rate_limiter s1)(key \<mapsto> kept @ [now])\<rparr>))"

text \<open>
  Serial requests \<open>(now, operation, identifier)\<close>: \<open>serve\<close> runs the check for one request
  and keeps the list of the requests admitted so far next to the integrator.
\<close>

type_synonym rate_request = "timestamp \<times> string \<times> string"

definition request_key :: "rate_request \<Rightarrow> string" where
  "request_key r = rate_key (fst (snd r)) (snd (snd r))"

definition serve :: "rate_request \<Rightarrow> rate_request list \<times> Integrator \<Rightarrow> rate_request list \<times> Integrator" where
  "serve r st =
     (let (ok, s') = check_rate_limit (fst r) (fst (snd r)) (snd (snd r)) (snd st)
      in (if ok then fst st @ [r] else fst st, s'))"

definition serve_all :: "rate_request list \<Rightarrow> Integrator \<Rightarrow> rate_request list \<times> Integrator" where
  "serve_all rs s = fold serve rs ([], s)"

text \<open>
  The timestamps of the admitted requests \<open>adm\<close> that carry the key \<open>key\<close> and lie within
  the last \<open>limit\<close> seconds before \<open>now\<close>.
\<close>

definition in_window :: "int \<Rightarrow> timestamp \<Rightarrow> string \<Rightarrow> rate_request list \<Rightarrow> timestamp list" where
  "in_window limit now key adm =
     [t \<leftarrow> map fst [r \<leftarrow> adm. request_key r = key]. now - t < of_int limit]"

text \<open>
  The timestamps of the admitted requests \<open>adm\<close> of the pair \<open>(operation, identifier)\<close>
  that lie within the last \<open>limit\<close> seconds before \<open>now\<close>, and the operation names
  without a colon.
\<close>

definition pair_window :: "int \<Rightarrow> timestamp \<Rightarrow> string \<Rightarrow> string \<Rightarrow> rate_request list \<Rightarrow> timestamp list" where
  "pair_window limit now operation identifier adm =
     [t \<leftarrow> map fst [r \<leftarrow> adm. fst (snd r) = operation \<and> snd (snd r) = identifier].
        now - t < of_int limit]"

definition plain_operation :: "string \<Rightarrow> bool" where
  "plain_operation operation \<longleftrightarrow> CHR '':'' \<notin> set operation"

text \<open>
  Whether \<open>_execute_with_retry\<close> gets past its first line: \<open>can_execute\<close> returns
  true.
\<close>

definition breaker_admits :: "Integrator \<Rightarrow> bool" where
  "breaker_admits s =
     (case can_execute (clock s) (circuit_breaker s) of
        Inl _ \<Rightarrow> False
      | Inr (ok, _) \<Rightarrow> ok)"

text \<open>
  Example inputs: a call that fails twice and then returns 42, a call that always fails,
  and an integrator with the default configuration (3 attempts, delay 1.0).
\<close>

definition flaky_call :: "int wrapped" where
  "flaky_call i = (if i < 2 then (1, Inl ''timeout'') else (1, Inr 42))"

definition failing_call :: "int wrapped" where
  "failing_call i = (1, Inl (if i = 2 then ''last'' else ''boom''))"

definition example_integrator :: Integrator where
  "example_integrator =
     \<lparr> circuit_breaker = new_CircuitBreaker 5 60,
       performance_monitor = \<lparr> request_count = 0, error_count = 0, avg_response_time = 0 \<rparr>,
       rate_limiter = Map.empty, api_rate_limit = 100, retry_attempts = 3, retry_delay = 1,
       clock = 0, effects = [] \<rparr>"

text \<open>Example input: the integrator above with a limit of 2 requests per 2 seconds.\<close>

definition small_limiter :: Integrator where
  "small_limiter = example_integrator\<lparr>api_rate_limit := 2\<rparr>"

section \<open>Camel case\<close>

text \<open>
  Python strings are modelled as lists of 8-bit characters read as code points. The model
  covers ASCII text, the input the docstring of \<open>safe_camel_case\<close> declares
  (alphanumerics, underscores and hyphens): \<open>lower_char\<close> and \<open>upper_char\<close> are Python's
  case mappings on the code points below 128 only. On a code point of 128 or more Python's
  mappings differ from them (\<open>str.lower()\<close> maps 201 to 233, \<open>str.capitalize()\<close> can
  change the length of the string or leave the 8-bit range), so every theorem about the
  case mappings below assumes that its input is ASCII. \<open>py_isspace\<close> lists the code
  points below 256 that \<open>str.split()\<close> treats as whitespace.
\<close>

definition py_isspace :: "char \<Rightarrow> bool" where
  "py_isspace c \<longleftrightarrow>
     (of_char c :: nat) \<in> {9, 10, 11, 12, 13, 28, 29, 30, 31, 32, 133, 160}"






text \<open>
  \<open>str.split()\<close> without arguments: the maximal runs of characters that are not
  whitespace, in order; \<open>cur\<close> is the run being read.
\<close>

fun split_from :: "string \<Rightarrow> string \<Rightarrow> string list" where
  "split_from cur [] = (if cur = [] then [] else [cur])"
| "split_from cur (c # cs) =
     (if py_isspace c then (if cur = [] then split_from [] cs else cur # split_from [] cs)
      else split_from (cur @ [c]) cs)"

definition split :: "string \<Rightarrow> string list" where
  "split s = split_from [] s"







section \<open>Collaborators of the workflow engine\<close>

subsection \<open>Task queue\<close>

text \<open>
  Modelled from the spec: the task queue (module \<open>task_queue\<close>), which is not among the
  sources. Per the spec \<open>enqueue\<close> assigns an id, sets the status to PENDING and returns
  the id; \<open>assign\<close> takes a PENDING task to ASSIGNED and fails otherwise; \<open>start\<close> takes
  ASSIGNED to RUNNING; \<open>complete\<close> takes RUNNING to COMPLETED when the error is empty and
  to FAILED otherwise; \<open>cancel\<close> takes any task that is not in a terminal state to
  CANCELLED and returns false on a terminal state; \<open>status\<close> returns a snapshot of the
  task. A lookup of an unknown id gives nothing. The ids are the queue's fresh uuids:
  \<open>uuid n\<close> is the \<open>n\<close>-th one drawn.
\<close>

record TaskQueue =
  queue_tasks :: "(string \<times> Task) list"
  drawn :: nat

text \<open>
  Modelled from the spec: a queue with no task, as the engine receives it at start.
\<close>

definition empty_queue :: TaskQueue where
  "empty_queue = \<lparr> queue_tasks = [], drawn = 0 \<rparr>"

text \<open>
  Modelled from the spec: \<open>status(task_id)\<close> of the missing task queue, a snapshot of the
  task, nothing for an unknown id.
\<close>

definition get_task_status :: "TaskQueue \<Rightarrow> string \<Rightarrow> Task option" where
  "get_task_status q tid = map_of (queue_tasks q) tid"

text \<open>
  Modelled from the spec: the terminal task states COMPLETED, FAILED and CANCELLED.
\<close>

definition is_terminal :: "TaskStatus \<Rightarrow> bool" where
  "is_terminal s = (s = TASK_COMPLETED \<or> s = TASK_FAILED \<or> s = TASK_CANCELLED)"

text \<open>
  Modelled from the spec: \<open>enqueue(task)\<close> of the missing task queue: assigns the id, sets
  the status to PENDING, returns the id.
\<close>

definition enqueue_task :: "(nat \<Rightarrow> string) \<Rightarrow> Task \<Rightarrow> TaskQueue \<Rightarrow> string \<times> TaskQueue" where
  "enqueue_task uuid t q =
     (let tid = uuid (drawn q)
      in (tid, q\<lparr>queue_tasks :=
                   AList.update tid (t\<lparr>task_id := tid, task_status := TASK_PENDING\<rparr>) (queue_tasks q),
                 drawn := drawn q + 1\<rparr>))"

text \<open>
  Modelled from the spec: \<open>assign(task_id, agent_id)\<close> of the missing task queue: PENDING to
  ASSIGNED, fails if the task is not PENDING.
\<close>

definition assign_agent :: "string \<Rightarrow> string \<Rightarrow> TaskQueue \<Rightarrow> bool \<times> TaskQueue" where
  "assign_agent tid agent q =
     (case get_task_status q tid of
        None \<Rightarrow> (False, q)
      | Some t \<Rightarrow>
          if task_status t = TASK_PENDING
          then (True, q\<lparr>queue_tasks :=
                  AList.update tid (t\<lparr>task_status := TASK_ASSIGNED, task_assigned_agent := Some agent\<rparr>)
                    (queue_tasks q)\<rparr>)
          else (False, q))"

text \<open>
  Modelled from the spec: \<open>start(task_id)\<close> of the missing task queue: ASSIGNED to RUNNING.
\<close>

definition start_task :: "string \<Rightarrow> TaskQueue \<Rightarrow> bool \<times> TaskQueue" where
  "start_task tid q =
     (case get_task_status q tid of
        None \<Rightarrow> (False, q)
      | Some t \<Rightarrow>
          if task_status t = TASK_ASSIGNED
          then (True, q\<lparr>queue_tasks :=
                  AList.update tid (t\<lparr>task_status := TASK_RUNNING\<rparr>) (queue_tasks q)\<rparr>)
          else (False, q))"

text \<open>
  Modelled from the spec: \<open>complete(task_id, result, error)\<close> of the missing task queue:
  RUNNING to COMPLETED if the error is empty, else to FAILED; rejected in any other state.
\<close>

definition complete_task :: "string \<Rightarrow> pyval \<Rightarrow> string option \<Rightarrow> TaskQueue \<Rightarrow> bool \<times> TaskQueue" where
  "complete_task tid result err q =
     (case get_task_status q tid of
        None \<Rightarrow> (False, q)
      | Some t \<Rightarrow>
          if task_status t = TASK_RUNNING
          then (True, q\<lparr>queue_tasks :=
                  AList.update tid
                    (t\<lparr>task_status := (if err = None \<or> err = Some [] then TASK_COMPLETED else TASK_FAILED),
                       task_result := result, task_error := err\<rparr>)
                    (queue_tasks q)\<rparr>)
          else (False, q))"

text \<open>
  Modelled from the spec: \<open>cancel(task_id)\<close> of the missing task queue: any state that is not
  terminal to CANCELLED; false on a terminal state.
\<close>

definition cancel_task :: "string \<Rightarrow> TaskQueue \<Rightarrow> bool \<times> TaskQueue" where
  "cancel_task tid q =
     (case get_task_status q tid of
        None \<Rightarrow> (False, q)
      | Some t \<Rightarrow>
          if is_terminal (task_status t) then (False, q)
          else (True, q\<lparr>queue_tasks :=
                  AList.update tid (t\<lparr>task_status := TASK_CANCELLED\<rparr>) (queue_tasks q)\<rparr>))"

text \<open>
  What the agents do to the queue while the engine sleeps between two polls: a batch of
  queue calls.
\<close>

datatype queue_call =
    StartTask string
  | CompleteTask string pyval "string option"
  | CancelTask string

fun do_queue_call :: "queue_call \<Rightarrow> TaskQueue \<Rightarrow> TaskQueue" where
  "do_queue_call (StartTask tid) q = snd (start_task tid q)"
| "do_queue_call (CompleteTask tid result err) q = snd (complete_task tid result err q)"
| "do_queue_call (CancelTask tid) q = snd (cancel_task tid q)"

subsection \<open>Agent registry, decision engine, automation adapter\<close>

text \<open>
  Modelled from the spec: the agent registry (module \<open>agent_registry\<close>), which is not
  among the sources. An agent has an id, capability tags, a status and a performance
  score; \<open>find_agents_by_capability\<close> returns the agents whose capabilities contain the
  tag and whose status is active.
\<close>

record Agent =
  agent_id :: string
  capabilities :: "string list"
  agent_status :: string
  performance_score :: real

text \<open>
  Modelled from the spec: \<open>find_by_capability(capability)\<close> of the missing agent registry:
  the agents whose capability set contains the tag and whose status is active.
\<close>

definition find_agents_by_capability :: "Agent list \<Rightarrow> string \<Rightarrow> Agent list" where
  "find_agents_by_capability registry capability =
     [a \<leftarrow> registry. capability \<in> set (capabilities a) \<and> agent_status a = ''active'']"

text \<open>
  The decision engine and the automation adapter are outside the sources; the engine only
  reads what they answer. A decision is the \<open>DecisionResult\<close> the engine reads, or the
  failure of anything in the \<open>try\<close> block of \<open>_select_agents_with_decision_engine\<close>. An
  adapter answer is the execution the engine reads, or a raised exception.
\<close>

record DecisionResult =
  target_type :: string
  target :: string
  reasoning :: string
  confidence :: real
  escalation_id :: pyval

datatype decision = DecisionRaised string | Decided DecisionResult

datatype n8n_answer =
    N8NRaised string
  | N8NExecution (execution_id: string) (execution_status: string) (result_data: pyval)
      (error_message: "string option")

section \<open>Workflow engine\<close>

subsection \<open>Phases of one workflow\<close>

text \<open>
  The phases act on the workflow object and on the task queue. What comes from outside
  during one execution is collected in the environment: the decision engine's answer
  (\<open>None\<close>: no decision engine attached), the automation adapter's answer (\<open>None\<close>: no
  adapter attached), the uuids the queue draws, the queue calls the agents make during
  each one-second sleep of the monitor loop, and the time at which the workflow completes.
\<close>

record Environment =
  decision_engine :: "decision option"
  n8n_adapter :: "n8n_answer option"
  uuid :: "nat \<Rightarrow> string"
  agent_activity :: "queue_call list list"
  completion_time :: timestamp

text \<open>\<open>WorkflowEngine._initialize_workflow\<close>.\<close>

definition initialize_workflow :: "Workflow \<Rightarrow> Workflow" where
  "initialize_workflow w = w\<lparr>current_phase := INITIALIZATION\<rparr>"

text \<open>\<open>WorkflowEngine._get_required_capabilities\<close>: \<open>capability_map.get(type, default)\<close>.\<close>

definition capability_map :: "(string \<times> string list) list" where
  "capability_map =
     [ (''site_recreation'',
          [''Project management'', ''Interface design'', ''Code generation'', ''Quality assurance'']),
       (''business_analysis'', [''Portfolio analysis'', ''Financial analysis'', ''Data analysis'']),
       (''content_creation'', [''Content strategy'', ''Copywriting'', ''SEO optimization'']),
       (''research_processing'',
          [''Research analysis'', ''Knowledge extraction'', ''Document processing'']),
       (''automation'', [''Web scraping'', ''Browser automation'', ''Workflow automation'']) ]"

definition get_required_capabilities :: "string \<Rightarrow> string list" where
  "get_required_capabilities wtype =
     (case map_of capability_map wtype of None \<Rightarrow> [''General capabilities''] | Some cs \<Rightarrow> cs)"

text \<open>
  \<open>WorkflowEngine._select_agents_simple\<close>: \<open>unique_agents\<close> is a dictionary keyed by
  agent id, so its keys keep the order in which the ids first appear.
\<close>

definition select_agents_simple :: "Agent list \<Rightarrow> Workflow \<Rightarrow> Workflow" where
  "select_agents_simple registry w =
     (let required_capabilities = get_required_capabilities (workflow_type w);
          suitable_agents =
            concat (map (find_agents_by_capability registry) required_capabilities);
          unique_agents =
            foldl (\<lambda>d agent.
                     if agent_id agent \<noteq> [] \<and> agent_status agent = ''active''
                     then AList.update (agent_id agent) agent d else d)
              [] suitable_agents
      in w\<lparr>assigned_agents := map fst unique_agents\<rparr>)"

text \<open>
  \<open>WorkflowEngine._select_agents_with_decision_engine\<close>: the branches on
  \<open>result.target_type\<close>, and the fallback to the simple selection when the \<open>try\<close> block
  raises.
\<close>

definition select_agents_with_decision_engine :: "decision \<Rightarrow> Agent list \<Rightarrow> Workflow \<Rightarrow> Workflow" where
  "select_agents_with_decision_engine d registry w =
     (case d of
        DecisionRaised e \<Rightarrow> select_agents_simple registry w
      | Decided r \<Rightarrow>
          if target_type r = ''agent'' then
            w\<lparr>assigned_agents := [target r],
              metadata :=
                AList.update ''decision_confidence'' (PFloat (confidence r))
                  (AList.update ''decision_reasoning'' (PStr (reasoning r)) (metadata w))\<rparr>
          else if target_type r = ''workflow'' then
            w\<lparr>metadata :=
                AList.update ''decision_reasoning'' (PStr (reasoning r))
                  (AList.update ''n8n_workflow_id'' (PStr (target r)) (metadata w)),
              assigned_agents := []\<rparr>
          else if target_type r = ''human'' then
            w\<lparr>metadata :=
                AList.update ''decision_reasoning'' (PStr (reasoning r))
                  (AList.update ''escalation_id'' (escalation_id r) (metadata w)),
              assigned_agents := []\<rparr>
          else w)"

text \<open>\<open>WorkflowEngine._select_agents\<close>.\<close>

definition select_agents :: "decision option \<Rightarrow> Agent list \<Rightarrow> Workflow \<Rightarrow> Workflow" where
  "select_agents engine registry w =
     (let w1 = w\<lparr>current_phase := AGENT_SELECTION\<rparr>
      in case engine of
           Some d \<Rightarrow> select_agents_with_decision_engine d registry w1
         | None \<Rightarrow> select_agents_simple registry w1)"

text \<open>\<open>WorkflowEngine._execute_n8n_workflow\<close>.\<close>

definition execute_n8n_workflow :: "n8n_answer option \<Rightarrow> Workflow \<Rightarrow> Workflow" where
  "execute_n8n_workflow adapter w =
     (case adapter of
        None \<Rightarrow> w\<lparr>status := WF_FAILED, error := Some ''N8N adapter not available''\<rparr>
      | Some (N8NRaised e) \<Rightarrow>
          w\<lparr>status := WF_FAILED, error := Some (''N8N workflow execution failed: '' @ e)\<rparr>
      | Some (N8NExecution eid st data err) \<Rightarrow>
          (let w1 = w\<lparr>results :=
                        AList.update ''n8n_execution''
                          (PDict [ (''execution_id'', PStr eid), (''status'', PStr st),
                                   (''result_data'', data),
                                   (''error_message'',
                                      case err of None \<Rightarrow> PNone | Some m \<Rightarrow> PStr m) ])
                          (results w)\<rparr>
           in if st = ''completed'' then w1\<lparr>status := WF_COMPLETED\<rparr>
              else w1\<lparr>status := WF_FAILED, error := err\<rparr>))"

text \<open>
  The \<open>for task in tasks\<close> loop of \<open>WorkflowEngine._execute_agent_tasks\<close>: enqueue the
  task, append its id to \<open>workflow.tasks\<close>, and, when \<open>workflow.assigned_agents\<close> is not
  empty, assign the task to \<open>workflow.assigned_agents[0]\<close>.
\<close>

fun enqueue_all :: "(nat \<Rightarrow> string) \<Rightarrow> Task list \<Rightarrow> Workflow \<times> TaskQueue \<Rightarrow> Workflow \<times> TaskQueue" where
  "enqueue_all ids [] (w, q) = (w, q)"
| "enqueue_all ids (task # rest) (w, q) =
     (let (tid, q1) = enqueue_task ids task q;
          w1 = w\<lparr>tasks := tasks w @ [tid]\<rparr>;
          q2 = (case assigned_agents w1 of
                  [] \<Rightarrow> q1
                | agent # _ \<Rightarrow> snd (assign_agent tid agent q1))
      in enqueue_all ids rest (w1, q2))"

text \<open>
  One pass of the \<open>while workflow.tasks\<close> loop of \<open>_monitor_task_execution\<close>, up to the
  test \<open>if not workflow.tasks: break\<close>: the ids whose task is COMPLETED, FAILED or
  CANCELLED are removed from \<open>workflow.tasks\<close>.
\<close>

definition finished :: "TaskQueue \<Rightarrow> string \<Rightarrow> bool" where
  "finished q tid =
     (case get_task_status q tid of None \<Rightarrow> False | Some t \<Rightarrow> is_terminal (task_status t))"

definition poll_tasks :: "TaskQueue \<Rightarrow> Workflow \<Rightarrow> Workflow" where
  "poll_tasks q w =
     (let completed_tasks = [tid \<leftarrow> tasks w. finished q tid]
      in w\<lparr>tasks := foldl (\<lambda>ts tid. remove1 tid ts) (tasks w) completed_tasks\<rparr>)"

text \<open>
  \<open>WorkflowEngine._monitor_task_execution\<close>. Each sleep consumes one batch of the agents'
  queue calls. When no activity is left and tasks remain, the loop polls an unchanging
  queue forever: it does not return, which is \<open>None\<close>.
\<close>

fun monitor_task_execution :: "queue_call list list \<Rightarrow> Workflow \<times> TaskQueue \<Rightarrow> (Workflow \<times> TaskQueue) option" where
  "monitor_task_execution [] (w, q) =
     (if tasks w = [] then Some (w, q)
      else if tasks (poll_tasks q w) = [] then Some (poll_tasks q w, q)
      else None)"
| "monitor_task_execution (batch # later) (w, q) =
     (if tasks w = [] then Some (w, q)
      else if tasks (poll_tasks q w) = [] then Some (poll_tasks q w, q)
      else monitor_task_execution later (poll_tasks q w, fold do_queue_call batch q))"

text \<open>\<open>WorkflowEngine._execute_agent_tasks\<close> and \<open>WorkflowEngine._execute_tasks\<close>.\<close>

definition execute_agent_tasks :: "Environment \<Rightarrow> Workflow \<times> TaskQueue \<Rightarrow> (Workflow \<times> TaskQueue) option" where
  "execute_agent_tasks env wq =
     monitor_task_execution (agent_activity env)
       (enqueue_all (uuid env) (create_workflow_tasks (fst wq)) wq)"

definition execute_tasks :: "Environment \<Rightarrow> Workflow \<times> TaskQueue \<Rightarrow> (Workflow \<times> TaskQueue) option" where
  "execute_tasks env wq =
     (let w1 = (fst wq)\<lparr>current_phase := TASK_EXECUTION\<rparr>
      in if truthy (dict_get (metadata w1) ''n8n_workflow_id'')
         then Some (execute_n8n_workflow (n8n_adapter env) w1, snd wq)
         else execute_agent_tasks env (w1, snd wq))"

text \<open>\<open>WorkflowEngine._process_results\<close> and \<open>WorkflowEngine._complete_workflow\<close>.\<close>

definition process_results :: "TaskQueue \<Rightarrow> Workflow \<Rightarrow> Workflow" where
  "process_results q w =
     (let w1 = w\<lparr>current_phase := RESULT_PROCESSING\<rparr>
      in w1\<lparr>results :=
              foldl (\<lambda>res tid.
                       case get_task_status q tid of
                         None \<Rightarrow> res
                       | Some t \<Rightarrow>
                           if task_status t = TASK_COMPLETED
                           then AList.update tid (task_result t) res else res)
                (results w1) (tasks w1)\<rparr>)"

definition complete_workflow :: "timestamp \<Rightarrow> Workflow \<Rightarrow> Workflow" where
  "complete_workflow now w =
     w\<lparr>current_phase := COMPLETION, status := WF_COMPLETED, completed_at := Some now\<rparr>"

text \<open>
  The \<open>try\<close> body of \<open>WorkflowEngine._execute_workflow\<close>, run without a cancellation:
  the five phases in order. None of the modelled phases raises.
\<close>

definition execute_workflow :: "Environment \<Rightarrow> Agent list \<Rightarrow> Workflow \<times> TaskQueue \<Rightarrow> (Workflow \<times> TaskQueue) option" where
  "execute_workflow env registry wq =
     (let w1 = initialize_workflow (fst wq);
          w2 = select_agents (decision_engine env) registry w1
      in case execute_tasks env (w2, snd wq) of
           None \<Rightarrow> None
         | Some (w3, q3) \<Rightarrow>
             Some (complete_workflow (completion_time env) (process_results q3 w3), q3))"

subsection \<open>The engine\<close>

text \<open>
  The engine's tables. A running workflow's entry in \<open>running_workflows\<close> is its
  \<open>asyncio.Task\<close>; of that task the model keeps whether \<open>cancel()\<close> was called on it.
\<close>

record WorkflowEngine =
  agent_registry :: "Agent list"
  task_queue :: TaskQueue
  workflows :: workflow_table
  running_workflows :: "(string \<times> bool) list"
  shutdown_flag :: bool

text \<open>\<open>WorkflowEngine.start_workflow\<close>.\<close>

definition start_workflow :: "timestamp \<Rightarrow> Workflow \<Rightarrow> WorkflowEngine \<Rightarrow> py_exception + (string \<times> WorkflowEngine)" where
  "start_workflow now w eng =
     (if shutdown_flag eng then Inl (RuntimeError ''Workflow engine is shutting down'')
      else Inr (wf_id w,
                eng\<lparr>workflows :=
                      AList.update (wf_id w) (w\<lparr>status := WF_RUNNING, started_at := Some now\<rparr>)
                        (workflows eng),
                    running_workflows := AList.update (wf_id w) False (running_workflows eng)\<rparr>))"

text \<open>\<open>WorkflowEngine.cancel_workflow\<close>, with the reading of \<open>datetime.now()\<close> as \<open>now\<close>.\<close>

definition cancel_workflow :: "timestamp \<Rightarrow> string \<Rightarrow> WorkflowEngine \<Rightarrow> bool \<times> WorkflowEngine" where
  "cancel_workflow now workflow_id eng =
     (case map_of (workflows eng) workflow_id of
        None \<Rightarrow> (False, eng)
      | Some w \<Rightarrow>
          if status w = WF_COMPLETED \<or> status w = WF_FAILED \<or> status w = WF_CANCELLED
          then (False, eng)
          else
            (let running =
                   (case map_of (running_workflows eng) workflow_id of
                      None \<Rightarrow> running_workflows eng
                    | Some _ \<Rightarrow> AList.update workflow_id True (running_workflows eng));
                 q = fold (\<lambda>tid q. snd (cancel_task tid q)) (tasks w) (task_queue eng);
                 w' = w\<lparr>status := WF_CANCELLED, completed_at := Some now\<rparr>
             in (True,
                 eng\<lparr>running_workflows := running, task_queue := q,
                     workflows := AList.update workflow_id w' (workflows eng)\<rparr>)))"

text \<open>
  The \<open>except asyncio.CancelledError\<close> branch and the \<open>finally\<close> block of
  \<open>WorkflowEngine._execute_workflow\<close>. A task on which \<open>cancel()\<close> was called while it
  was suspended in a phase gets \<open>CancelledError\<close> raised at its \<open>await\<close> when the event loop
  next runs it; \<open>now\<close> is the reading of \<open>datetime.now()\<close> at that moment.
\<close>

definition execute_workflow_cancelled :: "timestamp \<Rightarrow> string \<Rightarrow> WorkflowEngine \<Rightarrow> WorkflowEngine" where
  "execute_workflow_cancelled now workflow_id eng =
     (case map_of (running_workflows eng) workflow_id of
        Some True \<Rightarrow>
          (case map_of (workflows eng) workflow_id of
             None \<Rightarrow> eng
           | Some w \<Rightarrow>
               eng\<lparr>workflows :=
                     AList.update workflow_id
                       (w\<lparr>status := WF_CANCELLED, completed_at := Some now\<rparr>) (workflows eng),
                   running_workflows := AList.delete workflow_id (running_workflows eng)\<rparr>)
      | _ \<Rightarrow> eng)"

subsection \<open>Example inputs\<close>

text \<open>
  Scenario S1 of the spec: agent \<open>A1\<close> with the three business-analysis capabilities, a
  \<open>business_analysis\<close> workflow started at time 1, no decision engine, and agents that
  start and complete all three tasks during the first sleep of the monitor loop.
\<close>

definition agent_A1 :: Agent where
  "agent_A1 =
     \<lparr> agent_id = ''A1'',
       capabilities = [''Portfolio analysis'', ''Financial analysis'', ''Data analysis''],
       agent_status = ''active'', performance_score = 9 / 10 \<rparr>"

definition agent_A2 :: Agent where
  "agent_A2 =
     \<lparr> agent_id = ''A2'', capabilities = [''Financial analysis''],
       agent_status = ''active'', performance_score = 1 / 2 \<rparr>"

definition example_uuid :: "nat \<Rightarrow> string" where
  "example_uuid n =
     (if n = 0 then ''task-0'' else if n = 1 then ''task-1'' else if n = 2 then ''task-2''
      else ''task-n'')"

definition example_workflow :: Workflow where
  "example_workflow =
     (new_Workflow ''wf-1'' 0 ''business_analysis''
        [(''businesses'', PList [PDict [(''id'', PInt 1)]])] NORMAL)
     \<lparr>status := WF_RUNNING, started_at := Some 1\<rparr>"

definition example_env :: Environment where
  "example_env =
     \<lparr> decision_engine = None, n8n_adapter = None, uuid = example_uuid,
       agent_activity =
         [[ StartTask ''task-0'', CompleteTask ''task-0'' (PStr ''portfolio'') None,
            StartTask ''task-1'', CompleteTask ''task-1'' (PStr ''finance'') None,
            StartTask ''task-2'', CompleteTask ''task-2'' (PStr ''report'') None ]],
       completion_time = 9 \<rparr>"

text \<open>
  An engine in which the example workflow was started at time 1 and its execution task
  is suspended in the sleep of the monitor loop, the three tasks enqueued and assigned.
\<close>

definition example_engine :: WorkflowEngine where
  "example_engine =
     (let wq = enqueue_all example_uuid (create_workflow_tasks example_workflow)
                 (select_agents None [agent_A1] example_workflow, empty_queue)
      in \<lparr> agent_registry = [agent_A1], task_queue = snd wq,
           workflows = [(''wf-1'', (fst wq)\<lparr>current_phase := TASK_EXECUTION\<rparr>)],
           running_workflows = [(''wf-1'', False)], shutdown_flag = False \<rparr>)"

text \<open>A task after \<open>cancel\<close>: CANCELLED unless it was in a terminal state.\<close>

definition cancelled :: "Task \<Rightarrow> Task" where
  "cancelled t = (if is_terminal (task_status t) then t else t\<lparr>task_status := TASK_CANCELLED\<rparr>)"

definition wf_terminal :: "WorkflowStatus \<Rightarrow> bool" where
  "wf_terminal s = (s = WF_COMPLETED \<or> s = WF_FAILED \<or> s = WF_CANCELLED)"

text \<open>
  A decision that routes the example workflow to the automation flow \<open>n8n-42\<close>, with no
  adapter attached.
\<close>

definition n8n_env :: Environment where
  "n8n_env =
     example_env\<lparr>decision_engine :=
       Some (Decided \<lparr> target_type = ''workflow'', target = ''n8n-42'',
                        reasoning = ''no agent available'', confidence = 7 / 10,
                        escalation_id = PNone \<rparr>)\<rparr>"

section \<open>Theorems\<close>

subsection \<open>Workflow statistics\<close>

lemma count_status_Cons:
  "count_status ((k, w) # tbl) s = (if status w = s then 1 else 0) + count_status tbl s"
  by (simp add: count_status_def)

lemma count_status_partition:
  "length tbl = count_status tbl WF_PENDING + count_status tbl WF_RUNNING
     + count_status tbl WF_COMPLETED + count_status tbl WF_FAILED
     + count_status tbl WF_CANCELLED"
proof (induction tbl)
  case Nil
  show ?case by (simp add: count_status_def)
next
  case (Cons kw tbl)
  obtain k w where kw: "kw = (k, w)" by (cases kw)
  show ?case unfolding kw count_status_Cons using Cons.IH
    by (cases "status w") simp_all
qed

text \<open>
  Claim C9. For every state of the workflow table, the record returned by
  \<open>get_workflow_stats\<close> has all six counters, and \<open>total_workflows\<close> is the sum of
  \<open>pending_workflows\<close>, \<open>running_workflows\<close>, \<open>completed_workflows\<close>,
  \<open>failed_workflows\<close> and \<open>cancelled_workflows\<close>.
\<close>

theorem get_workflow_stats_total:
  "\<exists>t p r c f x.
     stat (get_workflow_stats tbl) ''total_workflows'' = Some t \<and>
     stat (get_workflow_stats tbl) ''pending_workflows'' = Some p \<and>
     stat (get_workflow_stats tbl) ''running_workflows'' = Some r \<and>
     stat (get_workflow_stats tbl) ''completed_workflows'' = Some c \<and>
     stat (get_workflow_stats tbl) ''failed_workflows'' = Some f \<and>
     stat (get_workflow_stats tbl) ''cancelled_workflows'' = Some x \<and>
     t = p + r + c + f + x"
  using count_status_partition [of tbl]
  by (simp add: stat_def get_workflow_stats_def)

subsection \<open>Task templates\<close>

text \<open>
  Claim C6, as amended. Task creation is determined by \<open>workflow_type\<close>:
  \<open>site_recreation\<close> yields the four tasks analyze_site, design_interface, generate_code,
  test_quality in this order; \<open>business_analysis\<close> yields analyze_portfolio,
  financial_analysis, generate_report in this order; every other workflow type (so also
  \<open>content_creation\<close>, \<open>research_processing\<close> and \<open>automation\<close>) yields the single
  task execute_workflow carrying the workflow payload. Every task carries the workflow's
  priority.
\<close>

theorem create_workflow_tasks_templates:
  "(workflow_type w = ''site_recreation'' \<longrightarrow>
      map task_type (create_workflow_tasks w) =
        [''analyze_site'', ''design_interface'', ''generate_code'', ''test_quality''] \<and>
      map task_payload (create_workflow_tasks w) =
        [ [(''url'', dict_get (payload w) ''url'')],
          [(''requirements'', dict_get (payload w) ''requirements'')],
          [(''design'', PStr ''from_previous_task'')],
          [(''code'', PStr ''from_previous_task'')] ]) \<and>
   (workflow_type w = ''business_analysis'' \<longrightarrow>
      map task_type (create_workflow_tasks w) =
        [''analyze_portfolio'', ''financial_analysis'', ''generate_report''] \<and>
      map task_payload (create_workflow_tasks w) =
        [ [(''businesses'', dict_get (payload w) ''businesses'')],
          [(''data'', PStr ''from_previous_task'')],
          [(''analysis'', PStr ''from_previous_task'')] ]) \<and>
   (workflow_type w \<noteq> ''site_recreation'' \<and> workflow_type w \<noteq> ''business_analysis'' \<longrightarrow>
      map task_type (create_workflow_tasks w) = [''execute_workflow''] \<and>
      map task_payload (create_workflow_tasks w) = [payload w]) \<and>
   (\<forall>t \<in> set (create_workflow_tasks w). task_priority t = priority w)"
  by (simp add: create_workflow_tasks_def new_Task_def)

theorem create_workflow_tasks_templates_witness:
  "map task_type (create_workflow_tasks
      (new_Workflow ''wf-1'' 0 ''site_recreation'' [(''url'', PStr ''http://a'')] HIGH)) =
     [''analyze_site'', ''design_interface'', ''generate_code'', ''test_quality''] \<and>
   map task_type (create_workflow_tasks
      (new_Workflow ''wf-2'' 0 ''business_analysis'' [(''businesses'', PList [PInt 1])] NORMAL)) =
     [''analyze_portfolio'', ''financial_analysis'', ''generate_report''] \<and>
   map task_payload (create_workflow_tasks
      (new_Workflow ''wf-3'' 0 ''automation'' [(''job'', PStr ''scrape'')] LOW)) =
     [[(''job'', PStr ''scrape'')]] \<and>
   list_all (\<lambda>t. task_priority t = HIGH) (create_workflow_tasks
      (new_Workflow ''wf-1'' 0 ''site_recreation'' [(''url'', PStr ''http://a'')] HIGH))"
  using
    create_workflow_tasks_templates
      [of "new_Workflow ''wf-1'' 0 ''site_recreation'' [(''url'', PStr ''http://a'')] HIGH"]
    create_workflow_tasks_templates
      [of "new_Workflow ''wf-2'' 0 ''business_analysis'' [(''businesses'', PList [PInt 1])] NORMAL"]
    create_workflow_tasks_templates
      [of "new_Workflow ''wf-3'' 0 ''automation'' [(''job'', PStr ''scrape'')] LOW"]
  by (simp add: new_Workflow_def list_all_iff)

text \<open>
  The claim as written gives \<open>content_creation\<close> a fixed multi-task chain of its own. The
  code sends it through the generic branch: one task, execute_workflow, with the payload.
\<close>

theorem create_workflow_tasks_content_creation_counterexample:
  "map task_type (create_workflow_tasks
      (new_Workflow ''wf-4'' 0 ''content_creation'' [(''topic'', PStr ''launch'')] NORMAL)) =
     [''execute_workflow''] \<and>
   \<not> 1 < length (create_workflow_tasks
      (new_Workflow ''wf-4'' 0 ''content_creation'' [(''topic'', PStr ''launch'')] NORMAL))"
  by (simp add: create_workflow_tasks_def new_Workflow_def new_Task_def)

subsection \<open>Circuit breaker\<close>

lemma breaker_inv_new: "breaker_inv th rt (new_CircuitBreaker th rt)"
  by (simp add: breaker_inv_def new_CircuitBreaker_def)

lemma breaker_inv_call: "breaker_inv th rt cb \<Longrightarrow> breaker_inv th rt (do_call c cb)"
  by (cases c)
     (auto simp: breaker_inv_def can_execute_def record_success_def record_failure_def Let_def
           split: BreakerState.splits option.splits)

lemma breaker_inv_fold: "breaker_inv th rt cb \<Longrightarrow> breaker_inv th rt (fold do_call cs cb)"
  by (induction cs arbitrary: cb) (simp_all add: breaker_inv_call)

lemma breaker_inv_after: "breaker_inv th rt (breaker_after th rt cs)"
  by (simp add: breaker_after_def breaker_inv_fold breaker_inv_new)

lemma do_call_count:
  "c \<noteq> RecordSuccess \<Longrightarrow>
     failure_count (do_call c cb) = failure_count cb + (if is_failure c then 1 else 0)"
  by (cases c)
     (simp_all add: can_execute_def record_failure_def Let_def
        split: BreakerState.splits option.splits)

lemma can_execute_keeps_open:
  "state cb \<noteq> CLOSED \<Longrightarrow> state (do_call (CanExecute now) cb) \<noteq> CLOSED"
  by (simp add: can_execute_def split: BreakerState.splits option.splits)

lemma failures_counted:
  "list_all (\<lambda>c. c \<noteq> RecordSuccess) run \<Longrightarrow>
     failure_count (fold do_call run cb) = failure_count cb + int (length (filter is_failure run))"
proof (induction run arbitrary: cb)
  case Nil
  show ?case by simp
next
  case (Cons c run)
  from Cons.prems have c: "c \<noteq> RecordSuccess" and rest: "list_all (\<lambda>c. c \<noteq> RecordSuccess) run"
    by simp_all
  have "failure_count (fold do_call (c # run) cb) =
      failure_count (do_call c cb) + int (length (filter is_failure run))"
    using Cons.IH [OF rest, of "do_call c cb"] by simp
  also have "\<dots> = failure_count cb + int (length (filter is_failure (c # run)))"
    unfolding do_call_count [OF c] by simp
  finally show ?case .
qed

lemma failures_open:
  assumes inv: "breaker_inv th rt cb"
    and nosucc: "list_all (\<lambda>c. c \<noteq> RecordSuccess) run"
    and some: "list_ex is_failure run"
    and enough: "th \<le> int (length (filter is_failure run))"
  shows "state (fold do_call run cb) \<noteq> CLOSED \<and>
         (is_failure (last run) \<longrightarrow> state (fold do_call run cb) = OPEN)"
  using nosucc some enough
proof (induction run rule: rev_induct)
  case Nil
  then show ?case by simp
next
  case (snoc c run)
  let ?cb = "fold do_call run cb"
  from snoc.prems have ns: "list_all (\<lambda>c. c \<noteq> RecordSuccess) run" by simp
  have inv': "breaker_inv th rt ?cb" using inv by (rule breaker_inv_fold)
  show ?case
  proof (cases c)
    case (CanExecute now)
    with snoc.prems have "list_ex is_failure run" "th \<le> int (length (filter is_failure run))"
      by simp_all
    with snoc.IH ns have "state ?cb \<noteq> CLOSED" by simp
    then have "state (do_call (CanExecute now) ?cb) \<noteq> CLOSED" by (rule can_execute_keeps_open)
    with CanExecute show ?thesis by simp
  next
    case RecordSuccess
    with snoc.prems show ?thesis by simp
  next
    case (RecordFailure now)
    have "failure_count ?cb = failure_count cb + int (length (filter is_failure run))"
      using ns by (rule failures_counted)
    moreover have "0 \<le> failure_count cb" "failure_threshold ?cb = th"
      using inv inv' by (simp_all add: breaker_inv_def)
    ultimately have "failure_threshold ?cb \<le> failure_count ?cb + 1"
      using snoc.prems(3) RecordFailure by simp
    then have "state (record_failure now ?cb) = OPEN"
      by (simp add: record_failure_def Let_def)
    with RecordFailure show ?thesis by simp
  qed
qed

text \<open>
  Claim C2, as amended. For a breaker built by the constructor and driven through any
  history of its calls: in CLOSED every call is admitted; after any further calls without
  a \<open>record_success\<close> among them (\<open>can_execute\<close> calls may come between the failures)
  that contain at least one and at least \<open>failure_threshold\<close> \<open>record_failure\<close> calls,
  the state is not CLOSED, and it is OPEN right after each such \<open>record_failure\<close>; in OPEN
  \<open>can_execute\<close> returns false and changes nothing while
  \<open>now - last_failure_time < recovery_timeout\<close>, and from then on returns true and moves
  the breaker to HALF_OPEN; in HALF_OPEN every \<open>can_execute\<close> is admitted and leaves the
  breaker in HALF_OPEN, a success returns it to CLOSED with \<open>failure_count = 0\<close>, and a
  failure returns it to OPEN.
\<close>

theorem circuit_breaker_state_machine:
  assumes cb: "cb = breaker_after threshold timeout cs"
  shows
    "(state cb = CLOSED \<longrightarrow> can_execute now cb = Inr (True, cb)) \<and>
     (list_all (\<lambda>c. c \<noteq> RecordSuccess) run \<and> list_ex is_failure run \<and>
      threshold \<le> int (length (filter is_failure run)) \<longrightarrow>
        state (fold do_call run cb) \<noteq> CLOSED \<and>
        (is_failure (last run) \<longrightarrow> state (fold do_call run cb) = OPEN)) \<and>
     (state cb = OPEN \<longrightarrow>
        (\<exists>t. last_failure_time cb = Some t \<and>
           can_execute now cb =
             (if now - t \<ge> of_int timeout then Inr (True, cb\<lparr>state := HALF_OPEN\<rparr>)
              else Inr (False, cb)))) \<and>
     (state cb = HALF_OPEN \<longrightarrow>
        can_execute now cb = Inr (True, cb) \<and>
        state (record_success cb) = CLOSED \<and> failure_count (record_success cb) = 0 \<and>
        state (record_failure now cb) = OPEN)"
proof -
  have inv: "breaker_inv threshold timeout cb"
    unfolding cb by (rule breaker_inv_after)
  have closed: "state cb = CLOSED \<longrightarrow> can_execute now cb = Inr (True, cb)"
    by (simp add: can_execute_def)
  have run: "list_all (\<lambda>c. c \<noteq> RecordSuccess) run \<and> list_ex is_failure run \<and>
      threshold \<le> int (length (filter is_failure run)) \<longrightarrow>
        state (fold do_call run cb) \<noteq> CLOSED \<and>
        (is_failure (last run) \<longrightarrow> state (fold do_call run cb) = OPEN)"
    using failures_open [OF inv] by blast
  have opened: "state cb = OPEN \<longrightarrow>
        (\<exists>t. last_failure_time cb = Some t \<and>
           can_execute now cb =
             (if now - t \<ge> of_int timeout then Inr (True, cb\<lparr>state := HALF_OPEN\<rparr>)
              else Inr (False, cb)))"
    using inv by (auto simp: breaker_inv_def can_execute_def)
  have half: "state cb = HALF_OPEN \<longrightarrow>
        can_execute now cb = Inr (True, cb) \<and>
        state (record_success cb) = CLOSED \<and> failure_count (record_success cb) = 0 \<and>
        state (record_failure now cb) = OPEN"
    using inv
    by (auto simp: breaker_inv_def can_execute_def record_success_def record_failure_def Let_def)
  from closed run opened half show ?thesis by blast
qed

lemma breaker_after_fresh: "breaker_after th rt [] = new_CircuitBreaker th rt"
  by (simp add: breaker_after_def)

lemma breaker_after_two_failures:
  "breaker_after 2 60 [RecordFailure 1, RecordFailure 2] =
     \<lparr> failure_threshold = 2, recovery_timeout = 60, failure_count = 2,
       last_failure_time = Some 2, state = OPEN \<rparr>"
  by (simp add: breaker_after_def new_CircuitBreaker_def record_failure_def Let_def)

lemma breaker_after_probe:
  "breaker_after 2 60 [RecordFailure 1, RecordFailure 2, CanExecute 62] =
     \<lparr> failure_threshold = 2, recovery_timeout = 60, failure_count = 2,
       last_failure_time = Some 2, state = HALF_OPEN \<rparr>"
  by (simp add: breaker_after_def new_CircuitBreaker_def record_failure_def Let_def
        can_execute_def)

theorem circuit_breaker_state_machine_witness:
  "can_execute 5 (new_CircuitBreaker 2 60) = Inr (True, new_CircuitBreaker 2 60) \<and>
   state (fold do_call [RecordFailure 1, RecordFailure 2] (new_CircuitBreaker 2 60)) = OPEN \<and>
   state (fold do_call
            [RecordFailure 1, RecordFailure 2, RecordFailure 3, CanExecute 4, RecordFailure 5,
             RecordFailure 6]
            (new_CircuitBreaker 5 60)) = OPEN \<and>
   can_execute 30 (breaker_after 2 60 [RecordFailure 1, RecordFailure 2]) =
     Inr (False, breaker_after 2 60 [RecordFailure 1, RecordFailure 2]) \<and>
   can_execute 62 (breaker_after 2 60 [RecordFailure 1, RecordFailure 2]) =
     Inr (True, breaker_after 2 60 [RecordFailure 1, RecordFailure 2, CanExecute 62]) \<and>
   can_execute 63 (breaker_after 2 60 [RecordFailure 1, RecordFailure 2, CanExecute 62]) =
     Inr (True, breaker_after 2 60 [RecordFailure 1, RecordFailure 2, CanExecute 62]) \<and>
   state (record_success (breaker_after 2 60 [RecordFailure 1, RecordFailure 2, CanExecute 62]))
     = CLOSED \<and>
   failure_count
     (record_success (breaker_after 2 60 [RecordFailure 1, RecordFailure 2, CanExecute 62])) = 0 \<and>
   state (record_failure 63 (breaker_after 2 60 [RecordFailure 1, RecordFailure 2, CanExecute 62]))
     = OPEN"
  using
    circuit_breaker_state_machine
      [OF refl, of 2 60 "[]" 5 "[RecordFailure 1, RecordFailure 2]"]
    circuit_breaker_state_machine
      [OF refl, of 5 60 "[]" 5
        "[RecordFailure 1, RecordFailure 2, RecordFailure 3, CanExecute 4, RecordFailure 5,
          RecordFailure 6]"]
    circuit_breaker_state_machine
      [OF refl, of 2 60 "[RecordFailure 1, RecordFailure 2]" 30 "[]"]
    circuit_breaker_state_machine
      [OF refl, of 2 60 "[RecordFailure 1, RecordFailure 2]" 62 "[]"]
    circuit_breaker_state_machine
      [OF refl, of 2 60 "[RecordFailure 1, RecordFailure 2, CanExecute 62]" 63 "[]"]
  unfolding breaker_after_fresh breaker_after_two_failures breaker_after_probe
  by (simp add: new_CircuitBreaker_def)

text \<open>
  The claim as written admits exactly one probe in HALF_OPEN. The code admits every call
  there: after one failure at time 0 (threshold 1, timeout 60) the call at time 60 is
  admitted and moves the breaker to HALF_OPEN, and the calls at times 61 and 62 are
  admitted as well, with no result recorded in between.
\<close>

theorem half_open_second_probe_counterexample:
  "can_execute 60 (breaker_after 1 60 [RecordFailure 0]) =
     Inr (True, breaker_after 1 60 [RecordFailure 0, CanExecute 60]) \<and>
   state (breaker_after 1 60 [RecordFailure 0, CanExecute 60]) = HALF_OPEN \<and>
   can_execute 61 (breaker_after 1 60 [RecordFailure 0, CanExecute 60]) =
     Inr (True, breaker_after 1 60 [RecordFailure 0, CanExecute 60, CanExecute 61]) \<and>
   can_execute 62 (breaker_after 1 60 [RecordFailure 0, CanExecute 60, CanExecute 61]) =
     Inr (True, breaker_after 1 60 [RecordFailure 0, CanExecute 60, CanExecute 61])"
  by (simp add: breaker_after_def new_CircuitBreaker_def record_failure_def Let_def
        can_execute_def)

subsection \<open>Retry wrapper\<close>


lemma retry_attempts_sleep [simp]: "retry_attempts (sleep d s) = retry_attempts s"
  and retry_delay_sleep [simp]: "retry_delay (sleep d s) = retry_delay s"
  and effects_sleep [simp]: "effects (sleep d s) = effects s @ [Sleep d]"
  by (simp_all add: sleep_def)

lemma retry_loop_success:
  assumes "retry_attempts s = int n" and "k < n" and "snd (func k) = Inr v"
    and "\<forall>i. j \<le> i \<and> i < k \<longrightarrow> isl (snd (func i))" and "j \<le> k"
  shows "fst (retry_loop func [j ..< n] s) = Inr (Some v) \<and>
         effects (snd (retry_loop func [j ..< n] s)) =
           effects s @ concat (map (\<lambda>i. [Call i, Sleep (retry_delay s * 2 ^ i)]) [j ..< k]) @ [Call k]"
  using assms
proof (induction "k - j" arbitrary: j s)
  case 0
  then have jk: "j = k" by simp
  have l: "[j ..< n] = k # [Suc k ..< n]" using 0 jk by (simp add: upt_conv_Cons)
  obtain d where fk: "func k = (d, Inr v)" using 0(4) by (cases "func k") auto
  show ?case unfolding l by (simp add: fk jk)
next
  case (Suc m)
  then have jk: "j < k" by simp
  have l: "[j ..< n] = j # [Suc j ..< n]" using Suc jk by (simp add: upt_conv_Cons)
  have l2: "[j ..< k] = j # [Suc j ..< k]" using jk by (simp add: upt_conv_Cons)
  from Suc(6) jk obtain d e where fj: "func j = (d, Inl e)"
    by (cases "func j"; cases "snd (func j)") auto
  have ne: "int j \<noteq> retry_attempts s - 1" using Suc(3,4) jk by simp
  let ?s2 = "s\<lparr>clock := clock s + d, effects := effects s @ [Call j],
      performance_monitor := record_request (clock s + d - clock s) False (performance_monitor s),
      circuit_breaker := record_failure (clock s + d) (circuit_breaker s)\<rparr>"
  let ?s3 = "sleep (retry_delay s * 2 ^ j) ?s2"
  have step: "retry_loop func [j ..< n] s = retry_loop func [Suc j ..< n] ?s3"
    unfolding l using ne by (simp add: fj Let_def)
  have IH: "fst (retry_loop func [Suc j ..< n] ?s3) = Inr (Some v) \<and>
         effects (snd (retry_loop func [Suc j ..< n] ?s3)) =
           effects ?s3 @ concat (map (\<lambda>i. [Call i, Sleep (retry_delay ?s3 * 2 ^ i)]) [Suc j ..< k]) @ [Call k]"
    apply (rule Suc(1))
    using Suc by auto
  show ?case unfolding step l2 using IH by simp
qed

lemma retry_loop_exhausted:
  assumes "retry_attempts s = int n" and "j < n" and "snd (func (n - 1)) = Inl e"
    and "\<forall>i. j \<le> i \<and> i < n \<longrightarrow> isl (snd (func i))"
  shows "fst (retry_loop func [j ..< n] s) = Inl (CallFailed e) \<and>
         effects (snd (retry_loop func [j ..< n] s)) =
           effects s @ concat (map (\<lambda>i. [Call i, Sleep (retry_delay s * 2 ^ i)]) [j ..< n - 1])
             @ [Call (n - 1)]"
  using assms
proof (induction "n - 1 - j" arbitrary: j s)
  case 0
  then have jn: "j = n - 1" by simp
  have l: "[n - 1 ..< n] = [n - 1]" using 0(3) by (simp add: upt_conv_Cons)
  obtain d where fk: "func (n - 1) = (d, Inl e)" using 0(4) by (cases "func (n - 1)") auto
  have last: "int (n - 1) = retry_attempts s - 1" using 0(2,3) by simp
  show ?case unfolding jn l using last fk by (simp add: Let_def)
next
  case (Suc m)
  then have jk: "j < n - 1" by simp
  have l: "[j ..< n] = j # [Suc j ..< n]" using Suc jk by (simp add: upt_conv_Cons)
  have l2: "[j ..< n - 1] = j # [Suc j ..< n - 1]" using jk by (simp add: upt_conv_Cons)
  from Suc(6) jk obtain d e' where fj: "func j = (d, Inl e')"
    by (cases "func j"; cases "snd (func j)") auto
  have ne: "int j \<noteq> retry_attempts s - 1" using Suc(3) jk by simp
  let ?s2 = "s\<lparr>clock := clock s + d, effects := effects s @ [Call j],
      performance_monitor := record_request (clock s + d - clock s) False (performance_monitor s),
      circuit_breaker := record_failure (clock s + d) (circuit_breaker s)\<rparr>"
  let ?s3 = "sleep (retry_delay s * 2 ^ j) ?s2"
  have step: "retry_loop func [j ..< n] s = retry_loop func [Suc j ..< n] ?s3"
    unfolding l using ne by (simp add: fj Let_def)
  have IH: "fst (retry_loop func [Suc j ..< n] ?s3) = Inl (CallFailed e) \<and>
         effects (snd (retry_loop func [Suc j ..< n] ?s3)) =
           effects ?s3 @ concat (map (\<lambda>i. [Call i, Sleep (retry_delay ?s3 * 2 ^ i)]) [Suc j ..< n - 1])
             @ [Call (n - 1)]"
    apply (rule Suc(1))
    using Suc by auto
  show ?case unfolding step l2 using IH by simp
qed

lemma retry_loop_tries:
  "\<exists>tr. effects (snd (retry_loop func as s)) = effects s @ tr \<and> tries tr \<le> length as"
proof (induction as arbitrary: s)
  case Nil
  show ?case by simp
next
  case (Cons a as)
  obtain d out where fa: "func a = (d, out)" by (cases "func a")
  show ?case
  proof (cases out)
    case (Inr v)
    then show ?thesis by (simp add: fa)
  next
    case (Inl e)
    define s3 where "s3 = sleep (retry_delay s * 2 ^ a)
      (s\<lparr>clock := clock s + d, effects := effects s @ [Call a],
         performance_monitor := record_request (clock s + d - clock s) False (performance_monitor s),
         circuit_breaker := record_failure (clock s + d) (circuit_breaker s)\<rparr>)"
    have eff: "effects s3 = effects s @ [Call a, Sleep (retry_delay s * 2 ^ a)]"
      by (simp add: s3_def)
    show ?thesis
    proof (cases "int a = retry_attempts s - 1")
      case True
      then show ?thesis by (simp add: fa Inl Let_def)
    next
      case False
      then have step: "retry_loop func (a # as) s = retry_loop func as s3"
        by (simp add: fa Inl Let_def s3_def)
      from Cons [of s3] obtain tr where
        tr: "effects (snd (retry_loop func as s3)) = effects s3 @ tr" "tries tr \<le> length as"
        by blast
      show ?thesis unfolding step
        by (rule exI [of _ "[Call a, Sleep (retry_delay s * 2 ^ a)] @ tr"]) (simp add: tr eff)
    qed
  qed
qed

lemma backoff_log_concat:
  "backoff_log delay k = concat (map (\<lambda>i. [Call i, Sleep (delay * 2 ^ i)]) [0 ..< k]) @ [Call k]"
  by (induction k) simp_all

lemma total_sleep_append: "total_sleep (xs @ ys) = total_sleep xs + total_sleep ys"
  by (induction xs rule: total_sleep.induct) simp_all

lemma tries_append: "tries (xs @ ys) = tries xs + tries ys"
  by (induction xs rule: tries.induct) simp_all

lemma total_sleep_backoff_log: "total_sleep (backoff_log delay k) = (\<Sum>i = 0 ..< k. delay * 2 ^ i)"
  by (induction k) (simp_all add: total_sleep_append)

lemma tries_backoff_log: "tries (backoff_log delay k) = Suc k"
  by (induction k) (simp_all add: tries_append)

lemma new_effects_append: "effects s' = effects s @ tr \<Longrightarrow> new_effects s s' = tr"
  by (simp add: new_effects_def)

text \<open>
  Claim C3. A run of the retry wrapper enters the wrapped call at most \<open>retry_attempts\<close>
  times. When the breaker admits the run and the call first succeeds on its \<open>k\<close>-th
  attempt (\<open>1 \<le> k \<le> retry_attempts\<close>), the wrapper returns the call's value after
  exactly \<open>k\<close> tries, the sleep between attempt \<open>i\<close> and attempt \<open>i + 1\<close> (counted from 0)
  is exactly \<open>retry_delay * 2 ^ i\<close>, and the sleeps before the success add up to the sum of
  \<open>retry_delay * 2 ^ i\<close> for \<open>i\<close> from 0 to \<open>k - 2\<close>. When every one of the
  \<open>retry_attempts \<ge> 1\<close> attempts fails, the exception of the last attempt is raised.
\<close>

theorem execute_with_retry_backoff:
  assumes run: "execute_with_retry func s = (res, s')"
  shows
    "tries (new_effects s s') \<le> nat (retry_attempts s) \<and>
     (\<forall>k v. breaker_admits s \<and> 1 \<le> k \<and> int k \<le> retry_attempts s \<and>
            (\<forall>i < k - 1. isl (snd (func i))) \<and> snd (func (k - 1)) = Inr v \<longrightarrow>
        res = Inr (Some v) \<and>
        new_effects s s' = backoff_log (retry_delay s) (k - 1) \<and>
        tries (new_effects s s') = k \<and>
        total_sleep (new_effects s s') = (\<Sum>i = 0 ..< k - 1. retry_delay s * 2 ^ i)) \<and>
     (\<forall>e. breaker_admits s \<and> 1 \<le> retry_attempts s \<and>
          (\<forall>i < nat (retry_attempts s). isl (snd (func i))) \<and>
          snd (func (nat (retry_attempts s) - 1)) = Inl e \<longrightarrow>
        res = Inl (CallFailed e) \<and>
        new_effects s s' = backoff_log (retry_delay s) (nat (retry_attempts s) - 1) \<and>
        tries (new_effects s s') = nat (retry_attempts s))"
proof -
  let ?n = "nat (retry_attempts s)"
  have bound: "tries (new_effects s s') \<le> ?n"
  proof (cases "can_execute (clock s) (circuit_breaker s)")
    case (Inl e)
    with run show ?thesis by (auto simp: execute_with_retry_def new_effects_def)
  next
    case (Inr p)
    obtain ok cb where p: "p = (ok, cb)" by (cases p)
    show ?thesis
    proof (cases ok)
      case False
      with run Inr p show ?thesis by (auto simp: execute_with_retry_def new_effects_def)
    next
      case True
      let ?s1 = "s\<lparr>circuit_breaker := cb\<rparr>"
      from run Inr p True have r: "retry_loop func [0 ..< ?n] ?s1 = (res, s')"
        by (simp add: execute_with_retry_def)
      from retry_loop_tries [of func "[0 ..< ?n]" ?s1] r obtain tr where
        "effects s' = effects s @ tr" "tries tr \<le> ?n" by auto
      then show ?thesis by (simp add: new_effects_append)
    qed
  qed
  have loop: "\<exists>cb. retry_loop func [0 ..< ?n] (s\<lparr>circuit_breaker := cb\<rparr>) = (res, s')"
    if "breaker_admits s"
    using that run
    by (auto simp: breaker_admits_def execute_with_retry_def split: sum.splits prod.splits if_splits)
  have succ: "res = Inr (Some v) \<and>
        new_effects s s' = backoff_log (retry_delay s) (k - 1) \<and>
        tries (new_effects s s') = k \<and>
        total_sleep (new_effects s s') = (\<Sum>i = 0 ..< k - 1. retry_delay s * 2 ^ i)"
    if h: "breaker_admits s \<and> 1 \<le> k \<and> int k \<le> retry_attempts s \<and>
            (\<forall>i < k - 1. isl (snd (func i))) \<and> snd (func (k - 1)) = Inr v" for k v
  proof -
    from loop h obtain cb where r: "retry_loop func [0 ..< ?n] (s\<lparr>circuit_breaker := cb\<rparr>) = (res, s')"
      by blast
    let ?s1 = "s\<lparr>circuit_breaker := cb\<rparr>"
    have "fst (retry_loop func [0 ..< ?n] ?s1) = Inr (Some v) \<and>
         effects (snd (retry_loop func [0 ..< ?n] ?s1)) =
           effects ?s1 @ concat (map (\<lambda>i. [Call i, Sleep (retry_delay ?s1 * 2 ^ i)]) [0 ..< k - 1])
             @ [Call (k - 1)]"
      by (rule retry_loop_success) (use h in auto)
    then have res: "res = Inr (Some v)"
      and eff: "effects s' = effects s @ backoff_log (retry_delay s) (k - 1)"
      by (simp_all add: r backoff_log_concat)
    from eff have ne: "new_effects s s' = backoff_log (retry_delay s) (k - 1)"
      by (rule new_effects_append)
    show ?thesis using h by (simp add: res ne total_sleep_backoff_log tries_backoff_log)
  qed
  have fail: "res = Inl (CallFailed e) \<and>
        new_effects s s' = backoff_log (retry_delay s) (?n - 1) \<and>
        tries (new_effects s s') = ?n"
    if h: "breaker_admits s \<and> 1 \<le> retry_attempts s \<and>
          (\<forall>i < ?n. isl (snd (func i))) \<and> snd (func (?n - 1)) = Inl e" for e
  proof -
    from loop h obtain cb where r: "retry_loop func [0 ..< ?n] (s\<lparr>circuit_breaker := cb\<rparr>) = (res, s')"
      by blast
    let ?s1 = "s\<lparr>circuit_breaker := cb\<rparr>"
    have "fst (retry_loop func [0 ..< ?n] ?s1) = Inl (CallFailed e) \<and>
         effects (snd (retry_loop func [0 ..< ?n] ?s1)) =
           effects ?s1 @ concat (map (\<lambda>i. [Call i, Sleep (retry_delay ?s1 * 2 ^ i)]) [0 ..< ?n - 1])
             @ [Call (?n - 1)]"
      by (rule retry_loop_exhausted) (use h in auto)
    then have res: "res = Inl (CallFailed e)"
      and eff: "effects s' = effects s @ backoff_log (retry_delay s) (?n - 1)"
      by (simp_all add: r backoff_log_concat)
    from eff have ne: "new_effects s s' = backoff_log (retry_delay s) (?n - 1)"
      by (rule new_effects_append)
    show ?thesis using h by (simp add: res ne tries_backoff_log)
  qed
  from bound succ fail show ?thesis by blast
qed

lemma example_admits: "breaker_admits example_integrator"
  by (simp add: breaker_admits_def example_integrator_def can_execute_def new_CircuitBreaker_def)

theorem execute_with_retry_backoff_witness:
  "fst (execute_with_retry flaky_call example_integrator) = Inr (Some 42) \<and>
   new_effects example_integrator (snd (execute_with_retry flaky_call example_integrator)) =
     [Call 0, Sleep 1, Call 1, Sleep 2, Call 2] \<and>
   total_sleep
     (new_effects example_integrator (snd (execute_with_retry flaky_call example_integrator))) = 3 \<and>
   fst (execute_with_retry failing_call example_integrator) = Inl (CallFailed ''last'') \<and>
   tries
     (new_effects example_integrator (snd (execute_with_retry failing_call example_integrator))) = 3"
proof -
  have three: "retry_attempts example_integrator = 3" and one: "retry_delay example_integrator = 1"
    by (simp_all add: example_integrator_def)
  have log: "backoff_log 1 2 = [Call 0, Sleep 1, Call 1, Sleep 2, Call 2]"
    by (simp add: numeral_2_eq_2)
  have flaky: "(\<forall>i < 3 - 1. isl (snd (flaky_call i))) \<and> snd (flaky_call (3 - 1)) = Inr 42"
    by (auto simp: flaky_call_def)
  have failing: "(\<forall>i < nat 3. isl (snd (failing_call i))) \<and> snd (failing_call (nat 3 - 1)) = Inl ''last''"
    by (auto simp: failing_call_def)
  note a = execute_with_retry_backoff
    [where func = flaky_call and s = example_integrator, OF prod.collapse [symmetric]]
  note b = execute_with_retry_backoff
    [where func = failing_call and s = example_integrator, OF prod.collapse [symmetric]]
  from a have "fst (execute_with_retry flaky_call example_integrator) = Inr (Some 42) \<and>
      new_effects example_integrator (snd (execute_with_retry flaky_call example_integrator)) =
        backoff_log 1 (3 - 1) \<and>
      total_sleep (new_effects example_integrator
        (snd (execute_with_retry flaky_call example_integrator))) = (\<Sum>i = 0 ..< 3 - 1. 1 * 2 ^ i)"
    using example_admits flaky unfolding three one
    by (elim conjE allE [of _ "3::nat"] allE [of _ "42::int"]) (auto simp: flaky_call_def)
  moreover from b have "fst (execute_with_retry failing_call example_integrator) = Inl (CallFailed ''last'') \<and>
      tries (new_effects example_integrator
        (snd (execute_with_retry failing_call example_integrator))) = 3"
    using example_admits failing unfolding three
    by (elim conjE allE [of _ "''last''"]) (auto simp: failing_call_def)
  moreover have "(\<Sum>i = 0 ..< 3 - 1. 1 * 2 ^ i) = (3::real)"
    by (simp add: numeral_2_eq_2)
  ultimately show ?thesis by (auto simp: log)
qed

subsection \<open>Rate limiter\<close>


lemma check_rate_limit_result:
  "check_rate_limit now operation identifier s =
     (let key = rate_key operation identifier;
          kept = [t \<leftarrow> bucket (rate_limiter s) key. now - t < of_int (api_rate_limit s)]
      in if api_rate_limit s \<le> int (length kept)
         then (False, s\<lparr>rate_limiter := (rate_limiter s)(key \<mapsto> kept)\<rparr>)
         else (True, s\<lparr>rate_limiter := (rate_limiter s)(key \<mapsto> kept @ [now])\<rparr>))"
  by (simp add: check_rate_limit_def Let_def)

lemma filter_window_mono:
  fixes now later :: real
  assumes "now \<le> later"
  shows "[t \<leftarrow> [t \<leftarrow> xs. now - t < L]. later - t < L] = [t \<leftarrow> xs. later - t < L]"
  using assms by (induction xs) auto

lemma in_window_snoc:
  "in_window L now key (adm @ [r]) =
     in_window L now key adm @
       (if request_key r = key \<and> now - fst r < of_int L then [fst r] else [])"
  by (simp add: in_window_def)

lemma bucket_upd: "bucket (rl(k \<mapsto> v)) key = (if key = k then v else bucket rl key)"
  by (simp add: bucket_def)

lemma bucket_if:
  "bucket (\<lambda>a. if a = k then Some v else rl a) key = (if key = k then v else bucket rl key)"
  by (simp add: bucket_def)

lemma serve_all_snoc: "serve_all (rs @ [r]) s = serve r (serve_all rs s)"
  by (simp add: serve_all_def)

lemma serve_all_inv:
  assumes "rate_limiter s = Map.empty" and "sorted (map fst rs)" and "\<forall>r \<in> set rs. fst r \<le> now"
  shows "api_rate_limit (snd (serve_all rs s)) = api_rate_limit s \<and>
         [t \<leftarrow> bucket (rate_limiter (snd (serve_all rs s))) key. now - t < of_int (api_rate_limit s)] =
           in_window (api_rate_limit s) now key (fst (serve_all rs s))"
  using assms
proof (induction rs arbitrary: now key rule: rev_induct)
  case Nil
  then show ?case by (simp add: serve_all_def bucket_def in_window_def)
next
  case (snoc r rs)
  let ?L = "api_rate_limit s"
  obtain adm s1 where st: "serve_all rs s = (adm, s1)" by (cases "serve_all rs s")
  from snoc.prems have sorted: "sorted (map fst rs)" and le: "\<forall>x \<in> set rs. fst x \<le> fst r"
    and rnow: "fst r \<le> now" and lenow: "\<forall>x \<in> set rs. fst x \<le> now"
    by (auto simp: sorted_append)
  note IH = snoc.IH [OF snoc.prems(1) sorted]
  have L1: "api_rate_limit s1 = ?L" using IH [OF lenow, of key] by (simp add: st)
  let ?kr = "request_key r"
  let ?kept = "[t \<leftarrow> bucket (rate_limiter s1) ?kr. fst r - t < of_int ?L]"
  have kept: "?kept = in_window ?L (fst r) ?kr adm"
    using IH [OF le, of ?kr] by (simp add: st)
  have old: "[t \<leftarrow> bucket (rate_limiter s1) k. now - t < of_int ?L] = in_window ?L now k adm" for k
    using IH [OF lenow, of k] by (simp add: st)
  have again: "[t \<leftarrow> ?kept. now - t < of_int ?L] = in_window ?L now ?kr adm"
    using filter_window_mono [OF rnow, where xs = "bucket (rate_limiter s1) ?kr" and L = "of_int ?L"]
      old [of ?kr]
    by simp
  have step: "serve r (adm, s1) =
      (if ?L \<le> int (length ?kept)
       then (adm, s1\<lparr>rate_limiter := (rate_limiter s1)(?kr \<mapsto> ?kept)\<rparr>)
       else (adm @ [r], s1\<lparr>rate_limiter := (rate_limiter s1)(?kr \<mapsto> ?kept @ [fst r])\<rparr>))"
    by (simp add: serve_def check_rate_limit_result Let_def L1 request_key_def)
  show ?case
  proof (cases "?L \<le> int (length ?kept)")
    case True
    have res: "serve_all (rs @ [r]) s =
        (adm, s1\<lparr>rate_limiter := (rate_limiter s1)(?kr \<mapsto> ?kept)\<rparr>)"
      using True by (simp only: serve_all_snoc st step if_True)
    have b: "bucket (rate_limiter (snd (serve_all (rs @ [r]) s))) key =
        (if key = ?kr then ?kept else bucket (rate_limiter s1) key)"
      unfolding res by (simp add: bucket_upd)
    have "[t \<leftarrow> bucket (rate_limiter (snd (serve_all (rs @ [r]) s))) key. now - t < of_int ?L] =
        in_window ?L now key adm"
      unfolding b using again old [of key] by (cases "key = ?kr") simp_all
    then show ?thesis by (simp add: res L1 bucket_if bucket_upd)
  next
    case False
    have res: "serve_all (rs @ [r]) s =
        (adm @ [r], s1\<lparr>rate_limiter := (rate_limiter s1)(?kr \<mapsto> ?kept @ [fst r])\<rparr>)"
      using False by (simp only: serve_all_snoc st step if_False)
    have b: "bucket (rate_limiter (snd (serve_all (rs @ [r]) s))) key =
        (if key = ?kr then ?kept @ [fst r] else bucket (rate_limiter s1) key)"
      unfolding res by (simp add: bucket_upd)
    have "[t \<leftarrow> bucket (rate_limiter (snd (serve_all (rs @ [r]) s))) key. now - t < of_int ?L] =
        in_window ?L now key (adm @ [r])"
      unfolding b in_window_snoc using again old [of key] by (cases "key = ?kr") auto
    then show ?thesis by (simp add: res L1 bucket_if bucket_upd)
  qed
qed

lemma check_rate_limit_per_key:
  assumes fresh: "rate_limiter s = Map.empty"
    and serial: "sorted (map fst (rs @ [(now, operation, identifier)]))"
  shows "check_rate_limit now operation identifier (snd (serve_all rs s)) =
     (let s1 = snd (serve_all rs s);
          key = rate_key operation identifier;
          w = in_window (api_rate_limit s) now key (fst (serve_all rs s))
      in if api_rate_limit s \<le> int (length w)
         then (False, s1\<lparr>rate_limiter := (rate_limiter s1)(key \<mapsto> w)\<rparr>)
         else (True, s1\<lparr>rate_limiter := (rate_limiter s1)(key \<mapsto> w @ [now])\<rparr>))"
proof -
  from serial have sorted: "sorted (map fst rs)" and le: "\<forall>r \<in> set rs. fst r \<le> now"
    by (auto simp: sorted_append)
  note inv = serve_all_inv [OF fresh sorted le, of "rate_key operation identifier"]
  show ?thesis
    unfolding check_rate_limit_result using inv by (simp add: Let_def)
qed

lemma colon_split:
  "CHR '':'' \<notin> set a \<Longrightarrow> CHR '':'' \<notin> set b \<Longrightarrow> a @ CHR '':'' # x = b @ CHR '':'' # y
     \<Longrightarrow> a = b \<and> x = y"
proof (induction a arbitrary: b)
  case Nil
  then show ?case by (cases b) auto
next
  case (Cons c a)
  then show ?case by (cases b) auto
qed

lemma rate_key_inj:
  assumes "plain_operation op1" and "plain_operation op2"
  shows "rate_key op1 id1 = rate_key op2 id2 \<longleftrightarrow> op1 = op2 \<and> id1 = id2"
  using assms colon_split [of op1 op2 id1 id2]
  by (auto simp: rate_key_def plain_operation_def)

lemma admitted_subset: "set (fst (serve_all rs s)) \<subseteq> set rs"
proof (induction rs rule: rev_induct)
  case Nil
  show ?case by (simp add: serve_all_def)
next
  case (snoc r rs)
  obtain adm s1 where st: "serve_all rs s = (adm, s1)" by (cases "serve_all rs s")
  with snoc have "set adm \<subseteq> set rs" by simp
  then show ?case
    unfolding serve_all_snoc st
    by (auto simp: serve_def split: prod.splits if_splits)
qed

lemma pair_window_key:
  assumes "list_all (\<lambda>r. plain_operation (fst (snd r))) adm" and "plain_operation operation"
  shows "in_window limit now (rate_key operation identifier) adm =
         pair_window limit now operation identifier adm"
proof -
  have "[r \<leftarrow> adm. request_key r = rate_key operation identifier] =
        [r \<leftarrow> adm. fst (snd r) = operation \<and> snd (snd r) = identifier]"
  proof (rule filter_cong [OF refl])
    fix r assume "r \<in> set adm"
    with assms(1) have "plain_operation (fst (snd r))" by (simp add: list_all_iff)
    from rate_key_inj [OF this assms(2)]
    show "(request_key r = rate_key operation identifier) =
          (fst (snd r) = operation \<and> snd (snd r) = identifier)"
      by (simp add: request_key_def)
  qed
  then show ?thesis by (simp add: in_window_def pair_window_def)
qed

text \<open>
  Claim C4, as amended. For every (operation, identity) pair, in a run of serial checks
  from the limiter's creation on whose clock readings do not decrease and whose operation
  names contain no \<open>:\<close> (as at every call site), the check rejects, recording nothing,
  exactly when the number of previously admitted requests of that pair whose timestamps
  lie within the last \<open>api_rate_limit\<close> seconds is at least \<open>api_rate_limit\<close>; otherwise
  it records the current timestamp and admits the request. In both cases the list under
  the pair's key becomes the timestamps of those requests (followed by the current one
  when admitted) and nothing else changes; the key of the pair is the key of no other
  pair with such an operation name.
\<close>

theorem check_rate_limit_sliding_window:
  assumes fresh: "rate_limiter s = Map.empty"
    and serial: "sorted (map fst (rs @ [(now, operation, identifier)]))"
    and plain: "list_all (\<lambda>r. plain_operation (fst (snd r))) (rs @ [(now, operation, identifier)])"
  shows
    "check_rate_limit now operation identifier (snd (serve_all rs s)) =
       (let s1 = snd (serve_all rs s);
            w = pair_window (api_rate_limit s) now operation identifier (fst (serve_all rs s))
        in if api_rate_limit s \<le> int (length w)
           then (False,
                 s1\<lparr>rate_limiter := (rate_limiter s1)(rate_key operation identifier \<mapsto> w)\<rparr>)
           else (True,
                 s1\<lparr>rate_limiter :=
                      (rate_limiter s1)(rate_key operation identifier \<mapsto> w @ [now])\<rparr>)) \<and>
     (\<forall>op2 id2. plain_operation op2 \<longrightarrow>
        (rate_key op2 id2 = rate_key operation identifier \<longleftrightarrow>
           op2 = operation \<and> id2 = identifier))"
proof -
  from plain have op: "plain_operation operation"
    and hist: "list_all (\<lambda>r. plain_operation (fst (snd r))) rs"
    by simp_all
  from hist admitted_subset [of rs s]
  have "list_all (\<lambda>r. plain_operation (fst (snd r))) (fst (serve_all rs s))"
    by (auto simp: list_all_iff)
  from pair_window_key [OF this op]
  have w: "in_window (api_rate_limit s) now (rate_key operation identifier) (fst (serve_all rs s)) =
      pair_window (api_rate_limit s) now operation identifier (fst (serve_all rs s))" .
  have 1: "check_rate_limit now operation identifier (snd (serve_all rs s)) =
       (let s1 = snd (serve_all rs s);
            w = pair_window (api_rate_limit s) now operation identifier (fst (serve_all rs s))
        in if api_rate_limit s \<le> int (length w)
           then (False,
                 s1\<lparr>rate_limiter := (rate_limiter s1)(rate_key operation identifier \<mapsto> w)\<rparr>)
           else (True,
                 s1\<lparr>rate_limiter :=
                      (rate_limiter s1)(rate_key operation identifier \<mapsto> w @ [now])\<rparr>))"
    unfolding check_rate_limit_per_key [OF fresh serial] Let_def w ..
  have 2: "\<forall>op2 id2. plain_operation op2 \<longrightarrow>
        (rate_key op2 id2 = rate_key operation identifier \<longleftrightarrow>
           op2 = operation \<and> id2 = identifier)"
    using rate_key_inj [OF _ op] by blast
  from 1 2 show ?thesis ..
qed

lemma small_limiter_history:
  "serve_all [(0, ''sync'', ''u1''), (1, ''sync'', ''u1''), (1, ''sync'', ''u2'')] small_limiter =
     ([(0, ''sync'', ''u1''), (1, ''sync'', ''u1''), (1, ''sync'', ''u2'')],
      small_limiter\<lparr>rate_limiter := [''sync:u1'' \<mapsto> [0, 1], ''sync:u2'' \<mapsto> [1]]\<rparr>)"
  by (simp add: serve_all_def serve_def check_rate_limit_result small_limiter_def
        example_integrator_def bucket_def rate_key_def Let_def)

theorem check_rate_limit_sliding_window_witness:
  "fst (check_rate_limit 1 ''sync'' ''u1''
     (snd (serve_all [(0, ''sync'', ''u1''), (1, ''sync'', ''u1''), (1, ''sync'', ''u2'')]
        small_limiter))) = False \<and>
   bucket (rate_limiter (snd (check_rate_limit 1 ''sync'' ''u1''
     (snd (serve_all [(0, ''sync'', ''u1''), (1, ''sync'', ''u1''), (1, ''sync'', ''u2'')]
        small_limiter))))) ''sync:u1'' = [0, 1] \<and>
   fst (check_rate_limit 2 ''sync'' ''u1''
     (snd (serve_all [(0, ''sync'', ''u1''), (1, ''sync'', ''u1''), (1, ''sync'', ''u2'')]
        small_limiter))) = True \<and>
   bucket (rate_limiter (snd (check_rate_limit 2 ''sync'' ''u1''
     (snd (serve_all [(0, ''sync'', ''u1''), (1, ''sync'', ''u1''), (1, ''sync'', ''u2'')]
        small_limiter))))) ''sync:u1'' = [1, 2] \<and>
   rate_key ''sync'' ''u2'' \<noteq> rate_key ''sync'' ''u1''"
proof -
  have fresh: "rate_limiter small_limiter = Map.empty"
    by (simp add: small_limiter_def example_integrator_def)
  have lim: "api_rate_limit small_limiter = 2"
    by (simp add: small_limiter_def)
  have s1: "sorted (map fst ([(0, ''sync'', ''u1''), (1, ''sync'', ''u1''), (1, ''sync'', ''u2'')]
      @ [(1::real, ''sync'', ''u1'')]))"
    and s2: "sorted (map fst ([(0, ''sync'', ''u1''), (1, ''sync'', ''u1''), (1, ''sync'', ''u2'')]
      @ [(2::real, ''sync'', ''u1'')]))"
    by simp_all
  have p1: "list_all (\<lambda>r. plain_operation (fst (snd r)))
      ([(0, ''sync'', ''u1''), (1, ''sync'', ''u1''), (1, ''sync'', ''u2'')]
         @ [(1::real, ''sync'', ''u1'')])"
    and p2: "list_all (\<lambda>r. plain_operation (fst (snd r)))
      ([(0, ''sync'', ''u1''), (1, ''sync'', ''u1''), (1, ''sync'', ''u2'')]
         @ [(2::real, ''sync'', ''u1'')])"
    by (simp_all add: plain_operation_def)
  note a = check_rate_limit_sliding_window [OF fresh s1 p1]
  note b = check_rate_limit_sliding_window [OF fresh s2 p2]
  have sync: "plain_operation ''sync''" by (simp add: plain_operation_def)
  from a sync have "rate_key ''sync'' ''u2'' \<noteq> rate_key ''sync'' ''u1''" by simp
  then show ?thesis
    unfolding a [THEN conjunct1] b [THEN conjunct1]
    unfolding small_limiter_history lim
    by (simp add: pair_window_def rate_key_def bucket_def Let_def)
qed

text \<open>
  The claim as written has no condition on the clock. \<open>time.time()\<close> is the wall clock
  and can be set back; the limiter drops a timestamp for good once it has left the window.
  With a limit of 2: requests at times 0 and 1 are admitted, a request at time 5 is
  admitted and empties the window of the first two, and a request at time 1 again (the
  clock set back) is admitted although the two requests admitted at times 0 and 1 lie
  within the last 2 seconds.
\<close>

theorem clock_set_back_counterexample:
  "fst (serve_all [(0, ''sync'', ''u1''), (1, ''sync'', ''u1''), (5, ''sync'', ''u1'')] small_limiter) =
     [(0, ''sync'', ''u1''), (1, ''sync'', ''u1''), (5, ''sync'', ''u1'')] \<and>
   length [r \<leftarrow> fst (serve_all [(0, ''sync'', ''u1''), (1, ''sync'', ''u1''), (5, ''sync'', ''u1'')]
                       small_limiter).
             (fst (snd r), snd (snd r)) = (''sync'', ''u1'') \<and> fst r \<le> 1 \<and> 1 - fst r < 2] = 2 \<and>
   api_rate_limit small_limiter \<le> 2 \<and>
   fst (check_rate_limit 1 ''sync'' ''u1''
     (snd (serve_all [(0, ''sync'', ''u1''), (1, ''sync'', ''u1''), (5, ''sync'', ''u1'')]
        small_limiter))) = True"
  by (simp add: serve_all_def serve_def check_rate_limit_result small_limiter_def
        example_integrator_def bucket_def rate_key_def Let_def)

text \<open>
  Outside the amended claim: an operation name that contains \<open>:\<close> can share its key with
  another pair, here \<open>("a:b", "c")\<close> and \<open>("a", "b:c")\<close>.
\<close>

lemma rate_key_shared: "rate_key ''a:b'' ''c'' = rate_key ''a'' ''b:c''"
  by (simp add: rate_key_def)

subsection \<open>Camel case\<close>




























subsection \<open>Workflow engine\<close>

lemma monitor_drains:
  "monitor_task_execution acts (w, q) = Some (w', q') \<Longrightarrow>
     tasks w' = [] \<and> results w' = results w \<and> status w' = status w \<and>
     metadata w' = metadata w \<and> assigned_agents w' = assigned_agents w"
proof (induction acts arbitrary: w q)
  case Nil
  then show ?case by (auto simp: poll_tasks_def Let_def split: if_splits)
next
  case (Cons batch later)
  show ?case
  proof (cases "tasks w = [] \<or> tasks (poll_tasks q w) = []")
    case True
    with Cons.prems show ?thesis by (auto simp: poll_tasks_def Let_def split: if_splits)
  next
    case False
    with Cons.prems have
      "monitor_task_execution later (poll_tasks q w, fold do_queue_call batch q) = Some (w', q')"
      by simp
    from Cons.IH [OF this] show ?thesis by (simp add: poll_tasks_def Let_def)
  qed
qed

lemma enqueue_all_keeps:
  "enqueue_all ids ts (w, q) = (w', q') \<Longrightarrow>
     results w' = results w \<and> status w' = status w \<and> metadata w' = metadata w \<and>
     assigned_agents w' = assigned_agents w"
proof (induction ts arbitrary: w q)
  case Nil
  then show ?case by simp
next
  case (Cons t ts)
  obtain tid q1 where e: "enqueue_task ids t q = (tid, q1)" by (cases "enqueue_task ids t q")
  let ?w1 = "w\<lparr>tasks := tasks w @ [tid]\<rparr>"
  let ?q2 = "case assigned_agents ?w1 of [] \<Rightarrow> q1 | agent # _ \<Rightarrow> snd (assign_agent tid agent q1)"
  from Cons.prems have "enqueue_all ids ts (?w1, ?q2) = (w', q')"
    by (simp add: e Let_def)
  from Cons.IH [OF this] show ?case by simp
qed

lemma process_results_drained:
  "tasks w = [] \<Longrightarrow> results (process_results q w) = results w"
  by (simp add: process_results_def Let_def)

lemma select_agents_results:
  "results (select_agents eng registry w) = results w \<and>
   status (select_agents eng registry w) = status w"
  by (auto simp: select_agents_def select_agents_with_decision_engine_def
        select_agents_simple_def Let_def split: option.splits decision.splits)

text \<open>
  On the agent route a run that returns has emptied \<open>workflow.tasks\<close>, so the results
  are what they were before the run, whatever the tasks did.
\<close>

lemma agent_route_results:
  assumes route: "\<not> truthy (dict_get (metadata (select_agents (decision_engine env) registry
                      (initialize_workflow w))) ''n8n_workflow_id'')"
    and run: "execute_workflow env registry (w, q) = Some (w', q')"
  shows "status w' = WF_COMPLETED \<and> results w' = results w \<and> tasks w' = []"
proof -
  let ?w2 = "select_agents (decision_engine env) registry (initialize_workflow w)"
  let ?w2' = "?w2\<lparr>current_phase := TASK_EXECUTION\<rparr>"
  from run obtain w3 q3 where ex: "execute_tasks env (?w2, q) = Some (w3, q3)"
    and fin: "w' = complete_workflow (completion_time env) (process_results q3 w3)"
    by (auto simp: execute_workflow_def Let_def split: option.splits)
  from ex route have mon: "monitor_task_execution (agent_activity env)
       (enqueue_all (uuid env) (create_workflow_tasks ?w2') (?w2', q)) = Some (w3, q3)"
    by (simp add: execute_tasks_def execute_agent_tasks_def Let_def)
  obtain w2e q2e where enq: "enqueue_all (uuid env) (create_workflow_tasks ?w2') (?w2', q) = (w2e, q2e)"
    by (cases "enqueue_all (uuid env) (create_workflow_tasks ?w2') (?w2', q)")
  from enqueue_all_keeps [OF enq] have r2: "results w2e = results w"
    by (simp add: select_agents_results initialize_workflow_def)
  from mon have "tasks w3 = [] \<and> results w3 = results w2e"
    unfolding enq using monitor_drains by blast
  with r2 show ?thesis
    unfolding fin by (simp add: complete_workflow_def process_results_def Let_def)
qed

text \<open>
  Claim C1, evaluated on scenario S1. The business-analysis workflow runs on the agent
  route, its three tasks are created, assigned to \<open>A1\<close> and completed with results, and
  the workflow ends COMPLETED. Its \<open>results\<close> are empty: the monitor loop has removed
  every id from \<open>workflow.tasks\<close> before \<open>_process_results\<close> iterates over that list,
  so no task result is copied.
\<close>

theorem business_analysis_results_empty:
  "map_option
     (\<lambda>(w, q). (status w, current_phase w, assigned_agents w, tasks w, results w,
        map (\<lambda>(tid, t). (tid, task_type t, task_status t, task_assigned_agent t, task_result t))
          (queue_tasks q)))
     (execute_workflow example_env [agent_A1] (example_workflow, empty_queue)) =
   Some (WF_COMPLETED, COMPLETION, [''A1''], [], [],
     [ (''task-0'', ''analyze_portfolio'', TASK_COMPLETED, Some ''A1'', PStr ''portfolio''),
       (''task-1'', ''financial_analysis'', TASK_COMPLETED, Some ''A1'', PStr ''finance''),
       (''task-2'', ''generate_report'', TASK_COMPLETED, Some ''A1'', PStr ''report'') ])"
  by code_simp

text \<open>
  Claim C5, evaluated with two selected agents. The selection gives
  \<open>assigned_agents = [A1, A2]\<close>, so a round-robin would give the second task to \<open>A2\<close>;
  the loop assigns every task to \<open>assigned_agents[0]\<close>, which is \<open>A1\<close>.
\<close>

theorem second_task_assigned_to_first_agent:
  "assigned_agents (select_agents None [agent_A1, agent_A2] (initialize_workflow example_workflow)) =
     [''A1'', ''A2''] \<and>
   [''A1'', ''A2''] ! (1 mod length [''A1'', ''A2'']) = ''A2'' \<and>
   map (\<lambda>(tid, t). (tid, task_type t, task_assigned_agent t))
     (queue_tasks (snd (enqueue_all example_uuid (create_workflow_tasks example_workflow)
        (select_agents None [agent_A1, agent_A2] (initialize_workflow example_workflow),
         empty_queue)))) =
     [ (''task-0'', ''analyze_portfolio'', Some ''A1''),
       (''task-1'', ''financial_analysis'', Some ''A1''),
       (''task-2'', ''generate_report'', Some ''A1'') ]"
  by code_simp

text \<open>
  Claim C8, evaluated on a workflow that is cancelled while its execution task sleeps in
  the monitor loop. \<open>cancel_workflow\<close> at time 5 calls \<open>cancel()\<close> on the execution task
  and sets the status to CANCELLED and \<open>completed_at\<close> to 5. When the execution task is
  resumed at time 7, its \<open>CancelledError\<close> handler assigns \<open>completed_at\<close> again: the
  workflow, already in a terminal state, changes from 5 to 7.
\<close>

theorem completed_at_assigned_twice:
  "map_option status (map_of (workflows example_engine) ''wf-1'') = Some WF_RUNNING \<and>
   fst (cancel_workflow 5 ''wf-1'' example_engine) = True \<and>
   map_option (\<lambda>w. (status w, completed_at w))
     (map_of (workflows (snd (cancel_workflow 5 ''wf-1'' example_engine))) ''wf-1'') =
     Some (WF_CANCELLED, Some 5) \<and>
   map_of (running_workflows (snd (cancel_workflow 5 ''wf-1'' example_engine))) ''wf-1'' = Some True \<and>
   map_option (\<lambda>w. (status w, completed_at w))
     (map_of (workflows (execute_workflow_cancelled 7 ''wf-1''
         (snd (cancel_workflow 5 ''wf-1'' example_engine)))) ''wf-1'') =
     Some (WF_CANCELLED, Some 7)"
  by code_simp

lemma cancelled_twice: "cancelled (cancelled t) = cancelled t"
  by (simp add: cancelled_def is_terminal_def)

lemma status_after_cancel:
  "get_task_status (snd (cancel_task tid q)) x =
     (if x = tid then map_option cancelled (get_task_status q x) else get_task_status q x)"
proof (cases "map_of (queue_tasks q) tid")
  case None
  then show ?thesis by (simp add: cancel_task_def get_task_status_def)
next
  case (Some t)
  then show ?thesis
    by (simp add: cancel_task_def get_task_status_def cancelled_def update_conv')
qed

lemma status_after_cancels:
  "get_task_status (fold (\<lambda>tid q. snd (cancel_task tid q)) ids q) x =
     (if x \<in> set ids then map_option cancelled (get_task_status q x) else get_task_status q x)"
proof (induction ids arbitrary: q)
  case Nil
  show ?case by simp
next
  case (Cons tid ids)
  have "map_option cancelled (map_option cancelled (get_task_status q x)) =
      map_option cancelled (get_task_status q x)"
    by (cases "get_task_status q x") (simp_all add: cancelled_twice)
  then show ?case
    by (auto simp: Cons.IH status_after_cancel)
qed

lemma cancel_workflow_terminal:
  assumes "map_of (workflows eng) wid = Some w" and "wf_terminal (status w)"
  shows "cancel_workflow now wid eng = (False, eng)"
  using assms by (simp add: cancel_workflow_def wf_terminal_def)

lemma cancel_workflow_live:
  assumes "map_of (workflows eng) wid = Some w" and "\<not> wf_terminal (status w)"
  shows "cancel_workflow now wid eng =
      (True,
       eng\<lparr>running_workflows :=
             (case map_of (running_workflows eng) wid of
                None \<Rightarrow> running_workflows eng
              | Some _ \<Rightarrow> AList.update wid True (running_workflows eng)),
           task_queue := fold (\<lambda>tid q. snd (cancel_task tid q)) (tasks w) (task_queue eng),
           workflows :=
             AList.update wid (w\<lparr>status := WF_CANCELLED, completed_at := Some now\<rparr>)
               (workflows eng)\<rparr>)"
  using assms by (simp add: cancel_workflow_def wf_terminal_def Let_def)

text \<open>
  Claim C7. \<open>cancel_workflow\<close> on a workflow whose status is COMPLETED, FAILED or
  CANCELLED returns false and leaves the engine as it was. On any other workflow it
  returns true, sets the workflow's status to CANCELLED and its \<open>completed_at\<close> to the
  current time, leaves every other workflow alone, calls \<open>cancel()\<close> on the workflow's
  execution task when the engine holds one, and calls the queue's \<open>cancel_task\<close> for the
  ids of \<open>workflow.tasks\<close> in order, so that each of these tasks is CANCELLED afterwards
  unless it was already in a terminal state.
\<close>

theorem cancel_workflow_spec:
  assumes found: "map_of (workflows eng) wid = Some w"
  shows
    "(wf_terminal (status w) \<longrightarrow> cancel_workflow now wid eng = (False, eng)) \<and>
     (\<not> wf_terminal (status w) \<longrightarrow>
        fst (cancel_workflow now wid eng) = True \<and>
        map_of (workflows (snd (cancel_workflow now wid eng))) wid =
          Some (w\<lparr>status := WF_CANCELLED, completed_at := Some now\<rparr>) \<and>
        (\<forall>other. other \<noteq> wid \<longrightarrow>
           map_of (workflows (snd (cancel_workflow now wid eng))) other =
             map_of (workflows eng) other) \<and>
        (map_of (running_workflows eng) wid \<noteq> None \<longrightarrow>
           map_of (running_workflows (snd (cancel_workflow now wid eng))) wid = Some True) \<and>
        task_queue (snd (cancel_workflow now wid eng)) =
          fold (\<lambda>tid q. snd (cancel_task tid q)) (tasks w) (task_queue eng) \<and>
        (\<forall>tid. get_task_status (task_queue (snd (cancel_workflow now wid eng))) tid =
           (if tid \<in> set (tasks w) then map_option cancelled (get_task_status (task_queue eng) tid)
            else get_task_status (task_queue eng) tid)))"
proof (cases "wf_terminal (status w)")
  case True
  with cancel_workflow_terminal [OF found] show ?thesis by simp
next
  case False
  show ?thesis
    unfolding cancel_workflow_live [OF found False] using False
    by (auto simp: update_conv' status_after_cancels split: option.splits)
qed

theorem cancel_workflow_spec_witness:
  "fst (cancel_workflow 5 ''wf-1'' example_engine) = True \<and>
   map_option status
     (map_of (workflows (snd (cancel_workflow 5 ''wf-1'' example_engine))) ''wf-1'') =
     Some WF_CANCELLED \<and>
   map_option completed_at
     (map_of (workflows (snd (cancel_workflow 5 ''wf-1'' example_engine))) ''wf-1'') =
     Some (Some 5) \<and>
   map_option task_status
     (get_task_status (task_queue (snd (cancel_workflow 5 ''wf-1'' example_engine))) ''task-1'') =
     Some TASK_CANCELLED \<and>
   cancel_workflow 6 ''wf-1'' (snd (cancel_workflow 5 ''wf-1'' example_engine)) =
     (False, snd (cancel_workflow 5 ''wf-1'' example_engine))"
proof -
  have "map_option status (map_of (workflows example_engine) ''wf-1'') = Some WF_RUNNING"
    by code_simp
  then obtain w where w: "map_of (workflows example_engine) ''wf-1'' = Some w"
    and st: "status w = WF_RUNNING"
    by (cases "map_of (workflows example_engine) ''wf-1''") auto
  have "tasks w = [''task-0'', ''task-1'', ''task-2'']"
  proof -
    have "map_option tasks (map_of (workflows example_engine) ''wf-1'') =
        Some [''task-0'', ''task-1'', ''task-2'']" by code_simp
    with w show ?thesis by simp
  qed
  then have mem: "''task-1'' \<in> set (tasks w)" by simp
  have old: "map_option task_status (get_task_status (task_queue example_engine) ''task-1'') =
      Some TASK_ASSIGNED" by code_simp
  note a = cancel_workflow_spec [OF w, of 5]
  have live: "\<not> wf_terminal (status w)" using st by (simp add: wf_terminal_def)
  note a' = a [THEN conjunct2, THEN mp, OF live]
  from a' have 1: "fst (cancel_workflow 5 ''wf-1'' example_engine) = True"
    and 2: "map_of (workflows (snd (cancel_workflow 5 ''wf-1'' example_engine))) ''wf-1'' =
          Some (w\<lparr>status := WF_CANCELLED, completed_at := Some 5\<rparr>)"
    and all: "\<forall>tid. get_task_status (task_queue (snd (cancel_workflow 5 ''wf-1'' example_engine))) tid =
           (if tid \<in> set (tasks w)
            then map_option cancelled (get_task_status (task_queue example_engine) tid)
            else get_task_status (task_queue example_engine) tid)"
    by blast+
  from all mem have 3:
    "get_task_status (task_queue (snd (cancel_workflow 5 ''wf-1'' example_engine))) ''task-1'' =
          map_option cancelled (get_task_status (task_queue example_engine) ''task-1'')"
    by simp
  from 3 old have 4: "map_option task_status
     (get_task_status (task_queue (snd (cancel_workflow 5 ''wf-1'' example_engine))) ''task-1'') =
     Some TASK_CANCELLED"
    by (cases "get_task_status (task_queue example_engine) ''task-1''")
       (auto simp: cancelled_def is_terminal_def)
  note b = cancel_workflow_spec [OF 2, of 6]
  from b have 5: "cancel_workflow 6 ''wf-1'' (snd (cancel_workflow 5 ''wf-1'' example_engine)) =
     (False, snd (cancel_workflow 5 ''wf-1'' example_engine))"
    by (simp add: wf_terminal_def)
  from 1 2 4 5 show ?thesis by simp
qed

lemma cancel_then_handler:
  assumes found: "map_of (workflows eng) wid = Some w" and live: "\<not> wf_terminal (status w)"
    and running: "map_of (running_workflows eng) wid \<noteq> None"
  shows "map_of (workflows (snd (cancel_workflow t1 wid eng))) wid =
           Some (w\<lparr>status := WF_CANCELLED, completed_at := Some t1\<rparr>) \<and>
         map_of (workflows (execute_workflow_cancelled t2 wid (snd (cancel_workflow t1 wid eng)))) wid =
           Some (w\<lparr>status := WF_CANCELLED, completed_at := Some t2\<rparr>)"
  unfolding cancel_workflow_live [OF found live] using running
  by (auto simp: execute_workflow_cancelled_def update_conv' split: option.splits)

text \<open>
  On the automation route \<open>_execute_n8n_workflow\<close> sets the status to FAILED when no
  adapter is attached; the two phases that follow still run, and \<open>_complete_workflow\<close>
  turns the FAILED workflow into a COMPLETED one, the error string still in place.
\<close>

lemma failed_workflow_completed_afterwards:
  "map_option (\<lambda>(w, q). (status w, error w))
     (execute_tasks n8n_env
        (select_agents (decision_engine n8n_env) [] (initialize_workflow example_workflow),
         empty_queue)) =
     Some (WF_FAILED, Some ''N8N adapter not available'') \<and>
   map_option (\<lambda>(w, q). (status w, error w, completed_at w))
     (execute_workflow n8n_env [] (example_workflow, empty_queue)) =
     Some (WF_COMPLETED, Some ''N8N adapter not available'', Some 9)"
  by code_simp

end
